theory Spec2Isabelle
  imports Complex_Main
begin

section \<open>Data model\<close>

text \<open>
  A two-dimensional NumPy array is a list of rows. Floating-point numbers are idealised
  as reals (no rounding, no NaN, no overflow); Python integers are \<open>int\<close>. An exception
  is a value of type \<open>error\<close>.
\<close>

type_synonym matrix = "real list list"

datatype error = IndexError | ValueError

definition nrows :: "'a list list \<Rightarrow> nat" where
  "nrows X = length X"

definition ncols :: "'a list list \<Rightarrow> nat" where
  "ncols X = (case X of [] \<Rightarrow> 0 | r # _ \<Rightarrow> length r)"

text \<open>\<open>rect n m X\<close>: the array \<open>X\<close> has shape \<open>(n, m)\<close>.\<close>

definition rect :: "nat \<Rightarrow> nat \<Rightarrow> 'a list list \<Rightarrow> bool" where
  "rect n m X = (length X = n \<and> list_all (\<lambda>r. length r = m) X)"

text \<open>
  \<open>W.dot(X)\<close> for \<open>W\<close> of shape \<open>(m, d)\<close> and \<open>X\<close> of shape \<open>(d, n)\<close>. On other shapes
  NumPy raises \<open>ValueError\<close>; the model does not represent that case.
\<close>

definition mat_dot :: "matrix \<Rightarrow> matrix \<Rightarrow> matrix" where
  "mat_dot W X = map (\<lambda>w. map (\<lambda>c. sum_list (map2 (*) w c)) (transpose X)) W"

text \<open>\<open>np.eye(n, k=k)\<close>: ones on the \<open>k\<close>-th diagonal (column = row + k).\<close>

definition eye :: "nat \<Rightarrow> int \<Rightarrow> matrix" where
  "eye n k = map (\<lambda>i. map (\<lambda>j. if int j = int i + k then 1 else 0) [0..<n]) [0..<n]"

text \<open>\<open>np.diag(v)\<close> of a vector.\<close>

definition diag :: "real list \<Rightarrow> matrix" where
  "diag v = map (\<lambda>i. map (\<lambda>j. if j = i then v ! i else 0) [0..<length v]) [0..<length v]"

text \<open>Element-wise operations on arrays of the same shape.\<close>

definition mat_map2 :: "(real \<Rightarrow> real \<Rightarrow> real) \<Rightarrow> matrix \<Rightarrow> matrix \<Rightarrow> matrix" where
  "mat_map2 f A B = map2 (map2 f) A B"

text \<open>Python's \<open>xs[i]\<close>: a negative index counts from the end.\<close>

definition py_index :: "'a list \<Rightarrow> int \<Rightarrow> error + 'a" where
  "py_index xs i =
     (let n = int (length xs); j = (if i < 0 then n + i else i)
      in if 0 \<le> j \<and> j < n then Inr (xs ! nat j) else Inl IndexError)"

text \<open>Python's \<open>xs[s:e]\<close>: a negative bound counts from the end, and bounds are clipped.\<close>

definition slice_bound :: "nat \<Rightarrow> int \<Rightarrow> nat" where
  "slice_bound n i = (if i < 0 then nat (max 0 (int n + i)) else min n (nat i))"

definition py_slice :: "'a list \<Rightarrow> int \<Rightarrow> int \<Rightarrow> 'a list" where
  "py_slice xs s e = drop (slice_bound (length xs) s) (take (slice_bound (length xs) e) xs)"

text \<open>\<open>np.unique\<close>: the sorted distinct elements.\<close>

definition unique :: "int list \<Rightarrow> int list" where
  "unique xs = sort (remdups xs)"

text \<open>
  The functions of librosa, SciPy and scikit-learn that the program calls are parameters
  of the model:
  \<^item> \<open>agglomerative X k\<close> is \<open>librosa.segment.agglomerative(X, k)\<close>;
  \<^item> \<open>sync X b\<close> is \<open>librosa.feature.sync(X, b)\<close>;
  \<^item> \<open>recurrence_matrix X k\<close> is \<open>librosa.segment.recurrence_matrix(X, k=k, sym=True)\<close>;
  \<^item> \<open>eig L\<close> is \<open>scipy.linalg.eig(L)\<close>, the pair of the eigenvalues and of the matrix whose
    columns are the eigenvectors;
  \<^item> \<open>fit_predict n A\<close> is
    \<open>sklearn.cluster.SpectralClustering(n_clusters=n, affinity='precomputed').fit_predict(A)\<close>.
  The cluster ids that scikit-learn returns also depend on its random initialisation,
  which the model does not represent.
\<close>

record library =
  agglomerative :: "matrix \<Rightarrow> int \<Rightarrow> int list"
  sync :: "matrix \<Rightarrow> int list \<Rightarrow> matrix"
  recurrence_matrix :: "matrix \<Rightarrow> int \<Rightarrow> matrix"
  eig :: "matrix \<Rightarrow> complex list \<times> complex list list"
  fit_predict :: "int \<Rightarrow> matrix \<Rightarrow> int list"

section \<open>Parameters\<close>

definition N_REP :: nat where "N_REP = 32"
definition LABEL_K :: int where "LABEL_K = 3"
definition GAP_TAU :: real where "GAP_TAU = 0"
definition SIGMA_MIN :: real where "SIGMA_MIN = 1 / 10000"

definition ascii_uppercase :: string where
  "ascii_uppercase = ''ABCDEFGHIJKLMNOPQRSTUVWXYZ''"

definition ascii_lowercase :: string where
  "ascii_lowercase = ''abcdefghijklmnopqrstuvwxyz''"

text \<open>
  \<open>SEGMENT_NAMES = list(string.ascii_uppercase)\<close>, then for each upper-case letter \<open>x\<close> the
  names \<open>'%s%s' % (x, y)\<close> for the lower-case letters \<open>y\<close>.
\<close>

definition SEGMENT_NAMES :: "string list" where
  "SEGMENT_NAMES =
     map (\<lambda>x. [x]) ascii_uppercase
     @ concat (map (\<lambda>x. map (\<lambda>y. [x, y]) ascii_lowercase) ascii_uppercase)"

text \<open>\<open>SEGMENT_NAMES[idx]\<close>\<close>

definition segment_name :: "int \<Rightarrow> error + string" where
  "segment_name idx = py_index SEGMENT_NAMES idx"

section \<open>Random-walk Laplacian (\<open>rw_laplacian\<close>)\<close>

text \<open>
  \<open>Dinv = np.diag(np.sum(A, axis=1)**-1.0)\<close>, \<open>L = np.eye(A.shape[0]) - Dinv.dot(A)\<close>.
  Raising a row sum of zero to the power \<open>-1\<close> is the division \<open>1/0\<close>: NumPy gives
  \<open>inf\<close> there and the result has entries that are not finite numbers. The model returns
  \<open>None\<close> in that case.
\<close>

definition rw_laplacian :: "matrix \<Rightarrow> matrix option" where
  "rw_laplacian A =
     (let s = map sum_list A
      in if list_ex (\<lambda>v. v = 0) s then None
         else Some (mat_map2 (-) (eye (length A) 0) (mat_dot (diag (map (\<lambda>v. 1 / v) s)) A)))"

section \<open>Spectral embedding (\<open>laplacian_eigenvectors\<close>, \<open>repetition\<close>)\<close>

text \<open>
  \<open>np.argsort\<close>: the indices in ascending order of the values (equal values are kept in
  index order here; NumPy's default sort does not promise an order among them).
\<close>

definition argsort :: "real list \<Rightarrow> nat list" where
  "argsort vs = sort_key (\<lambda>i. vs ! i) [0..<length vs]"

definition laplacian_eigenvectors :: "library \<Rightarrow> matrix \<Rightarrow> nat \<Rightarrow> complex list list" where
  "laplacian_eigenvectors lib L k =
     (case eig lib L of (e_vals0, e_vecs0) \<Rightarrow>
      let e_vals1 = map Re e_vals0;
          idx = argsort e_vals1;
          e_vals2 = map (\<lambda>i. e_vals1 ! i) idx;
          e_vecs2 = map (\<lambda>row. map (\<lambda>i. row ! i) idx) e_vecs0;
          e_vals3 = drop 1 e_vals2;
          e_vecs3 = map (drop 1) e_vecs2;
          e_vecs4 =
            (if k < length e_vals3 then map (take k) e_vecs3
             else if k > length e_vals3 then
               map (\<lambda>row. row @ replicate (k - ncols e_vecs3) 0) e_vecs3
             else e_vecs3)
      in transpose (map (take k) e_vecs4))"

text \<open>
  The last steps of \<open>repetition\<close>, from the de-skewed matrix \<open>Rf\<close> that the calls of
  librosa and the median filter produce: symmetrise, add the two off-diagonals, take the
  Laplacian and its eigenvectors.
\<close>

definition repetition_graph :: "matrix \<Rightarrow> matrix" where
  "repetition_graph Rf =
     (let Rf' = mat_map2 max Rf (transpose Rf)
      in mat_map2 (+) (mat_map2 (+) Rf' (eye (length Rf') 1)) (eye (length Rf') (- 1)))"

definition repetition :: "library \<Rightarrow> matrix \<Rightarrow> complex list list option" where
  "repetition lib Rf =
     (case rw_laplacian (repetition_graph Rf) of
        None \<Rightarrow> None
      | Some L \<Rightarrow> Some (laplacian_eigenvectors lib L N_REP))"

section \<open>Likelihood cost (\<open>gaussian_cost\<close>, \<open>clustering_cost\<close>)\<close>

text \<open>\<open>np.var(x, ddof=1)\<close> of one row.\<close>

definition var_ddof1 :: "real list \<Rightarrow> real" where
  "var_ddof1 xs =
     (let m = sum_list xs / real (length xs)
      in sum_list (map (\<lambda>x. (x - m)\<^sup>2) xs) / (real (length xs) - 1))"

definition gaussian_cost :: "matrix \<Rightarrow> real" where
  "gaussian_cost X =
     (let d = nrows X; n = ncols X
      in if n < 2 then 0
         else let sigma = map var_ddof1 X
              in - 0.5 * real d * real n * ln (2 * pi) - 0.5 * (real n - 1) * sum_list sigma)"

text \<open>\<open>X[:, start:end]\<close>\<close>

definition columns :: "matrix \<Rightarrow> int \<Rightarrow> int \<Rightarrow> matrix" where
  "columns X start end = map (\<lambda>row. py_slice row start end) X"

definition clustering_cost :: "matrix \<Rightarrow> int list \<Rightarrow> real" where
  "clustering_cost X boundaries =
     (let k = int (length boundaries) - 1;
          d = real (nrows X); n = real (ncols X);
          cost = map (\<lambda>(start, end). gaussian_cost (columns X start end))
                     (zip (butlast boundaries) (tl boundaries))
      in - 2 * sum_list cost / n + 2 * (d * real_of_int k))"

section \<open>Affinity matrix (\<open>label_build_affinity\<close>)\<close>

text \<open>\<open>scipy.spatial.distance.cdist(X, Y)\<close>: the Euclidean distance of every pair of rows.\<close>

definition cdist :: "matrix \<Rightarrow> matrix \<Rightarrow> matrix" where
  "cdist X Y = map (\<lambda>x. map (\<lambda>y. sqrt (sum_list (map2 (\<lambda>a b. (a - b)\<^sup>2) x y))) Y) X"

text \<open>\<open>np.median\<close> of a vector.\<close>

definition median :: "real list \<Rightarrow> real" where
  "median xs =
     (let s = sort xs; n = length s
      in if even n then (s ! (n div 2 - 1) + s ! (n div 2)) / 2 else s ! (n div 2))"

text \<open>
  The kernel bandwidth \<open>sigma\<close> is one number on the default path and a matrix when
  \<open>local\<close> is set; \<open>D / sigma\<close> divides element-wise in both cases.
\<close>

datatype bandwidth = Global real | Local matrix

fun divide_by :: "matrix \<Rightarrow> bandwidth \<Rightarrow> matrix" where
  "divide_by D (Global s) = map (map (\<lambda>v. v / s)) D"
| "divide_by D (Local S) = mat_map2 (/) D S"

definition kernel_bandwidth :: "matrix \<Rightarrow> bool \<Rightarrow> bandwidth" where
  "kernel_bandwidth D local =
     (let Dsort = map (\<lambda>row. sort row ! 1) D;
          Dsort = map (\<lambda>v. max v SIGMA_MIN) Dsort
      in if local then Local (map (\<lambda>a. map (\<lambda>b. sqrt (a * b)) Dsort) Dsort)
         else Global (median Dsort))"

text \<open>
  \<open>X\<close> holds one point per row. \<open>np.sort(D, axis=1)[:, 1]\<close> raises \<open>IndexError\<close> when
  \<open>D\<close> has fewer than two columns.
\<close>

definition label_build_affinity :: "library \<Rightarrow> matrix \<Rightarrow> int \<Rightarrow> bool \<Rightarrow> error + matrix" where
  "label_build_affinity lib X k local =
     (let n = length X;
          k = min k (int n - 1);
          D = map (map (\<lambda>v. v\<^sup>2)) (cdist X X)
      in if n < 2 then Inl IndexError
         else
           let sigma = kernel_bandwidth D local;
               A = map (map (\<lambda>v. exp (- 0.5 * v))) (divide_by D sigma);
               KNN = recurrence_matrix lib (transpose X) k;
               KNN = mat_map2 (+) KNN (eye n 0)
           in Inr (mat_map2 (*) A KNN))"

section \<open>Number of clusters (\<open>label_estimate_n_components\<close>)\<close>

text \<open>\<open>np.diff\<close> of a vector.\<close>

definition diff :: "real list \<Rightarrow> real list" where
  "diff xs = map2 (\<lambda>a b. b - a) (butlast xs) (tl xs)"

text \<open>\<open>np.argmax\<close> of a non-empty vector: the first index of the largest value.\<close>

fun argmax :: "real list \<Rightarrow> nat" where
  "argmax [] = 0"
| "argmax [x] = 0"
| "argmax (x # y # ys) = (if Max (set (y # ys)) \<le> x then 0 else Suc (argmax (y # ys)))"

text \<open>
  \<open>scipy.linalg.eig\<close> refuses a matrix with entries that are not finite, and \<open>np.argmax\<close>
  and \<open>np.max\<close> refuse an empty vector, both with \<open>ValueError\<close>.
\<close>

definition label_estimate_n_components :: "library \<Rightarrow> matrix \<Rightarrow> error + (int \<times> real)" where
  "label_estimate_n_components lib A =
     (case rw_laplacian A of
        None \<Rightarrow> Inl ValueError
      | Some L \<Rightarrow>
          let spectrum = sort (map Re (fst (eig lib L)));
              spectral_gap = diff spectrum
          in if spectral_gap = [] then Inl ValueError
             else Inr (1 + int (argmax spectral_gap), Max (set spectral_gap)))"

section \<open>Boundary detection (\<open>spectral_cost\<close>, \<open>get_k_segments\<close>, \<open>get_segments\<close>)\<close>

definition spectral_cost :: "library \<Rightarrow> matrix \<Rightarrow> int list \<Rightarrow> error + real" where
  "spectral_cost lib X boundaries =
     (case label_build_affinity lib (transpose (sync lib X boundaries)) LABEL_K False of
        Inl e \<Rightarrow> Inl e
      | Inr A \<Rightarrow>
          (case label_estimate_n_components lib A of
             Inl e \<Rightarrow> Inl e
           | Inr (_, cost) \<Rightarrow> Inr (- max cost GAP_TAU)))"

definition get_k_segments ::
  "library \<Rightarrow> matrix \<Rightarrow> matrix \<Rightarrow> int \<Rightarrow> bool \<Rightarrow> error + (int list \<times> real)" where
  "get_k_segments lib X_bound X_lab k use_spectral =
     (let boundaries = agglomerative lib X_bound k;
          boundaries = unique ([0] @ boundaries @ [int (ncols X_bound)])
      in if use_spectral then
           (case spectral_cost lib X_lab boundaries of
              Inl e \<Rightarrow> Inl e
            | Inr cost \<Rightarrow> Inr (boundaries, cost))
         else Inr (boundaries, clustering_cost X_bound boundaries))"

text \<open>\<open>cost_min\<close> starts as \<open>np.inf\<close> and afterwards holds the cost of a candidate.\<close>

datatype cost_bound = Infinity | Finite real

fun cost_le :: "real \<Rightarrow> cost_bound \<Rightarrow> bool" where
  "cost_le c Infinity = True"
| "cost_le c (Finite m) = (c \<le> m)"

text \<open>\<open>range(kmax, kmin, -1)\<close>\<close>

function range_down :: "int \<Rightarrow> int \<Rightarrow> int list" where
  "range_down hi lo = (if lo < hi then hi # range_down (hi - 1) lo else [])"
  by pat_completeness auto
termination
  by (relation "measure (\<lambda>(hi, lo). nat (hi - lo))") auto

declare range_down.simps [simp del]

text \<open>
  The \<open>for\<close> loop of \<open>get_segments\<close> over the remaining candidates, with the loop state
  \<open>(cost_min, S_best)\<close>; \<open>gks k\<close> stands for
  \<open>get_k_segments(X_bound, X_lab, k, use_spectral)\<close>. An exception raised there leaves
  \<open>get_segments\<close>; the \<open>else: break\<close> branch leaves the loop with the current \<open>S_best\<close>.
\<close>

fun scan ::
  "(int \<Rightarrow> error + (int list \<times> real)) \<Rightarrow> int list \<Rightarrow> cost_bound \<Rightarrow> int list \<Rightarrow> error + int list"
where
  "scan gks [] cost_min S_best = Inr S_best"
| "scan gks (k # ks) cost_min S_best =
     (case gks k of
        Inl e \<Rightarrow> Inl e
      | Inr (S, cost) \<Rightarrow>
          if cost_le cost cost_min then scan gks ks (Finite cost) S else Inr S_best)"

definition get_segments ::
  "library \<Rightarrow> matrix \<Rightarrow> matrix \<Rightarrow> matrix \<Rightarrow> bool \<Rightarrow> int \<Rightarrow> int \<Rightarrow> error + int list" where
  "get_segments lib X W_bound W_lab use_spectral kmin kmax =
     (let X_bound = mat_dot W_bound X;
          X_lab = mat_dot W_lab X
      in scan (\<lambda>k. get_k_segments lib X_bound X_lab k use_spectral)
           (range_down kmax kmin) Infinity [])"

section \<open>Labels (\<open>label_segments\<close>)\<close>

text \<open>
  The number of clusters that \<open>label_segments\<close> passes to the clustering:
  \<open>n_labels = min(len(A)-1, max(2, n_labels))\<close>, where the right-hand \<open>n_labels\<close> is the
  estimate returned by \<open>label_estimate_n_components(A)\<close>.
\<close>

definition n_clusters :: "library \<Rightarrow> matrix \<Rightarrow> error + int" where
  "n_clusters lib A =
     (case label_estimate_n_components lib A of
        Inl e \<Rightarrow> Inl e
      | Inr (n_labels, label_cost) \<Rightarrow> Inr (min (int (length A) - 1) (max 2 n_labels)))"

text \<open>\<open>[SEGMENT_NAMES[idx] for idx in seg_ids]\<close>\<close>

fun names_of :: "int list \<Rightarrow> error + string list" where
  "names_of [] = Inr []"
| "names_of (idx # ids) =
     (case segment_name idx of
        Inl e \<Rightarrow> Inl e
      | Inr name \<Rightarrow> (case names_of ids of Inl e \<Rightarrow> Inl e | Inr names \<Rightarrow> Inr (name # names)))"

definition label_segments :: "library \<Rightarrow> matrix \<Rightarrow> error + string list" where
  "label_segments lib X =
     (case label_build_affinity lib (transpose X) LABEL_K False of
        Inl e \<Rightarrow> Inl e
      | Inr A \<Rightarrow>
          (case n_clusters lib A of
             Inl e \<Rightarrow> Inl e
           | Inr n_labels \<Rightarrow> names_of (fit_predict lib n_labels A)))"

section \<open>Two readings of the segment term of the likelihood cost\<close>

definition mean :: "real list \<Rightarrow> real" where
  "mean xs = sum_list xs / real (length xs)"

text \<open>
  The average per-sample log-likelihood of a segment under the Gaussian with unit
  variance centred at the segment's mean.
\<close>

definition unit_average_loglik :: "matrix \<Rightarrow> real" where
  "unit_average_loglik Y =
     sum_list (map (\<lambda>row. sum_list (map (\<lambda>x. - 0.5 * ln (2 * pi) - (x - mean row)\<^sup>2 / 2) row)) Y)
       / real (ncols Y)"

text \<open>
  The segment term in the words of the specification: the average per-sample
  log-likelihood under the Gaussian with diagonal covariance fitted to the segment, each
  feature with the segment's mean and the segment's sample variance (\<open>ddof = 1\<close>); zero for
  a segment with fewer than two samples. \<open>spec_clustering_cost\<close> is the total cost
  \<open>-2 \<cdot> \<Sum> / N + 2 \<cdot> D \<cdot> k\<close> over these terms.
\<close>

definition normal_logpdf :: "real \<Rightarrow> real \<Rightarrow> real \<Rightarrow> real" where
  "normal_logpdf m v x = - 0.5 * ln (2 * pi * v) - (x - m)\<^sup>2 / (2 * v)"

definition spec_segment_loglik :: "matrix \<Rightarrow> real" where
  "spec_segment_loglik Y =
     (if ncols Y < 2 then 0
      else sum_list (map (\<lambda>row. sum_list (map (normal_logpdf (mean row) (var_ddof1 row)) row)) Y)
           / real (ncols Y))"

definition spec_clustering_cost :: "matrix \<Rightarrow> int list \<Rightarrow> real" where
  "spec_clustering_cost X boundaries =
     - 2 * sum_list (map (\<lambda>(start, end). spec_segment_loglik (columns X start end))
                      (zip (butlast boundaries) (tl boundaries))) / real (ncols X)
     + 2 * (real (nrows X) * real_of_int (int (length boundaries) - 1))"

section \<open>A concrete library\<close>

text \<open>
  An instance of the library functions on which the model can be evaluated: the
  clustering cuts before each of the first \<open>k\<close> frames, no two points are neighbours, the
  eigen-decomposition is that of the zero matrix, and the spectral clustering puts every
  segment into cluster 0.
\<close>

definition example_library :: library where
  "example_library =
     \<lparr> agglomerative = (\<lambda>X k. map int [0..<nat k]),
       sync = (\<lambda>X b. X),
       recurrence_matrix = (\<lambda>X k. replicate (ncols X) (replicate (ncols X) 0)),
       eig = (\<lambda>L. (replicate (length L) 0, map (map complex_of_real) (eye (length L) 0))),
       fit_predict = (\<lambda>n A. replicate (length A) 0) \<rparr>"

section \<open>Properties\<close>

subsection \<open>Auxiliary facts\<close>

lemma length_eye: "length (eye n k) = n"
  by (simp add: eye_def)

lemma range_down_eq: "range_down hi lo = map (\<lambda>i. hi - int i) [0..<nat (hi - lo)]"
proof (induction "nat (hi - lo)" arbitrary: hi)
  case 0
  then show ?case by (simp add: range_down.simps [of hi lo])
next
  case (Suc m)
  then have lt: "lo < hi" and m: "m = nat (hi - 1 - lo)" by linarith+
  have "range_down hi lo = hi # range_down (hi - 1) lo"
    using lt by (simp add: range_down.simps [of hi lo])
  also have "range_down (hi - 1) lo = map (\<lambda>i. hi - 1 - int i) [0..<m]"
    using Suc.hyps(1) [OF m] m by simp
  also have "hi # map (\<lambda>i. hi - 1 - int i) [0..<m] = map (\<lambda>i. hi - int i) [0..<Suc m]"
    unfolding map_upt_Suc by simp
  finally show ?case using Suc.hyps(2) by simp
qed

lemma range_down_set: "set (range_down hi lo) = {k. lo < k \<and> k \<le> hi}"
proof (induction hi lo rule: range_down.induct)
  case (1 hi lo)
  show ?case
  proof (cases "lo < hi")
    case True
    have "set (range_down hi lo) = insert hi (set (range_down (hi - 1) lo))"
      using True by (simp add: range_down.simps [of hi lo])
    also have "\<dots> = insert hi {k. lo < k \<and> k \<le> hi - 1}"
      using 1 True by simp
    also have "\<dots> = {k. lo < k \<and> k \<le> hi}"
      using True by auto
    finally show ?thesis .
  next
    case False
    then show ?thesis by (auto simp: range_down.simps [of hi lo])
  qed
qed

lemma scan_accept:
  assumes "\<forall>k\<in>set ks. gks k = Inr (S k, c k)" and "ks \<noteq> []" and "cost_le (c (hd ks)) cost_min"
  shows "\<exists>n<length ks. scan gks ks cost_min S_best = Inr (S (ks ! n)) \<and>
           (\<forall>i<n. c (ks ! Suc i) \<le> c (ks ! i)) \<and>
           (Suc n < length ks \<longrightarrow> c (ks ! n) < c (ks ! Suc n))"
  using assms
proof (induction ks arbitrary: cost_min S_best)
  case Nil
  then show ?case by simp
next
  case (Cons k ks)
  have step: "scan gks (k # ks) cost_min S_best = scan gks ks (Finite (c k)) (S k)"
    using Cons.prems by simp
  show ?case
  proof (cases "ks = []")
    case True
    then show ?thesis using step by simp
  next
    case False
    then obtain k' ks' where ks: "ks = k' # ks'" by (cases ks) auto
    show ?thesis
    proof (cases "c k' \<le> c k")
      case True
      then have "cost_le (c (hd ks)) (Finite (c k))" using ks by simp
      with Cons.IH [of "Finite (c k)" "S k"] Cons.prems False
      obtain n where n: "n < length ks" "scan gks ks (Finite (c k)) (S k) = Inr (S (ks ! n))"
        "\<forall>i<n. c (ks ! Suc i) \<le> c (ks ! i)" "Suc n < length ks \<longrightarrow> c (ks ! n) < c (ks ! Suc n)"
        by auto
      have "\<forall>i<Suc n. c ((k # ks) ! Suc i) \<le> c ((k # ks) ! i)"
      proof (intro allI impI)
        fix i assume "i < Suc n"
        then show "c ((k # ks) ! Suc i) \<le> c ((k # ks) ! i)"
          using n(3) True ks by (cases i) auto
      qed
      with n step show ?thesis
        by (intro exI [of _ "Suc n"]) simp
    next
      case False
      then have "scan gks (k # ks) cost_min S_best = Inr (S k)"
        using step ks Cons.prems by simp
      with False ks show ?thesis
        by (intro exI [of _ 0]) simp
    qed
  qed
qed

lemma scan_result:
  "scan gks ks cost_min S_best = Inr S \<Longrightarrow> S = S_best \<or> (\<exists>k\<in>set ks. \<exists>c. gks k = Inr (S, c))"
proof (induction ks arbitrary: cost_min S_best)
  case Nil
  then show ?case by simp
next
  case (Cons k ks)
  show ?case
  proof (cases "gks k")
    case (Inl e)
    with Cons.prems show ?thesis by simp
  next
    case (Inr r)
    obtain S0 c0 where r: "r = (S0, c0)" by (cases r)
    show ?thesis
    proof (cases "cost_le c0 cost_min")
      case True
      then have "scan gks ks (Finite c0) S0 = Inr S"
        using Cons.prems Inr r by simp
      from Cons.IH [OF this] show ?thesis using Inr r by auto
    next
      case False
      then show ?thesis using Cons.prems Inr r by simp
    qed
  qed
qed

lemma scan_candidate:
  assumes "ks \<noteq> []" and "scan gks ks Infinity S_best = Inr S"
  shows "\<exists>k\<in>set ks. \<exists>c. gks k = Inr (S, c)"
proof -
  obtain k ks' where ks: "ks = k # ks'" using assms(1) by (cases ks) auto
  show ?thesis
  proof (cases "gks k")
    case (Inl e)
    with assms(2) ks show ?thesis by simp
  next
    case (Inr r)
    obtain S0 c0 where r: "r = (S0, c0)" by (cases r)
    have "scan gks ks' (Finite c0) S0 = Inr S"
      using assms(2) ks Inr r by simp
    from scan_result [OF this] show ?thesis using ks Inr r by auto
  qed
qed

lemma sorted_hd_le: "sorted xs \<Longrightarrow> x \<in> set xs \<Longrightarrow> hd xs \<le> (x::int)"
  by (cases xs) auto

lemma sorted_le_last: "sorted xs \<Longrightarrow> x \<in> set xs \<Longrightarrow> (x::int) \<le> last xs"
  by (induction xs) auto

lemma unique_sandwich:
  assumes "\<forall>b\<in>set bs. 0 \<le> b \<and> b \<le> N" and "0 \<le> N"
  shows "unique ([0] @ bs @ [N]) \<noteq> [] \<and> hd (unique ([0] @ bs @ [N])) = 0 \<and>
         last (unique ([0] @ bs @ [N])) = N \<and> sorted_wrt (<) (unique ([0] @ bs @ [N]))"
proof -
  let ?u = "unique ([0] @ bs @ [N])"
  have set_u: "set ?u = insert 0 (insert N (set bs))"
    by (auto simp: unique_def)
  have ne: "?u \<noteq> []" using set_u by auto
  have srt: "sorted ?u" and dst: "distinct ?u"
    by (simp_all add: unique_def)
  have bounds: "\<forall>b\<in>set ?u. 0 \<le> b \<and> b \<le> N"
    using assms set_u by auto
  have "hd ?u \<in> set ?u" "last ?u \<in> set ?u" using ne by simp_all
  then have h0: "0 \<le> hd ?u" and lN: "last ?u \<le> N" using bounds by blast+
  have "0 \<in> set ?u" "N \<in> set ?u" using set_u by simp_all
  then have "hd ?u \<le> 0" "N \<le> last ?u"
    using srt by (simp_all add: sorted_hd_le sorted_le_last)
  with h0 lN have "hd ?u = 0" "last ?u = N" by simp_all
  moreover have "sorted_wrt (<) ?u" using srt dst by (simp add: strict_sorted_iff)
  ultimately show ?thesis using ne by simp
qed

lemma rect_nth: "rect n m A \<Longrightarrow> i < n \<Longrightarrow> length (A ! i) = m"
  by (simp add: rect_def list_all_length)

lemma rect_row: "rect n m A \<Longrightarrow> r \<in> set A \<Longrightarrow> length r = m"
  by (simp add: rect_def list_all_iff)

lemma transpose_rect:
  assumes "rect n m A" and "0 < n"
  shows "transpose A = map (\<lambda>j. map (\<lambda>row. row ! j) A) [0..<m]"
proof -
  have len: "length A = n" using assms(1) by (simp add: rect_def)
  have "transpose A = map (\<lambda>i. map (\<lambda>j. A ! j ! i) [0..<length A]) [0..<m]"
  proof (rule transpose_rectangle)
    show "A = [] \<Longrightarrow> m = 0" using len assms(2) by simp
    show "\<And>i. i < length A \<Longrightarrow> length (A ! i) = m"
      using assms(1) len by (simp add: rect_nth)
  qed
  moreover have "map (\<lambda>j. A ! j ! i) [0..<length A] = map (\<lambda>row. row ! i) A" for i
    by (rule nth_equalityI) simp_all
  ultimately show ?thesis by simp
qed

lemma length_argsort: "length (argsort vs) = length vs"
  by (simp add: argsort_def)

lemma set_argsort: "set (argsort vs) = {0..<length vs}"
  by (simp add: argsort_def)

lemma distinct_argsort: "distinct (argsort vs)"
  by (simp add: argsort_def)

lemma sorted_argsort: "sorted (map (\<lambda>i. vs ! i) (argsort vs))"
  by (simp add: argsort_def)

text \<open>One row of the eigenvector matrix through the steps of \<open>laplacian_eigenvectors\<close>.\<close>

lemma embedding_row:
  fixes row :: "complex list"
  assumes "length idx = N" and "0 < N"
  shows "length (let r3 = drop 1 (map (\<lambda>i. row ! i) idx) in
      take k (if k < N - 1 then take k r3
              else if k > N - 1 then r3 @ replicate (k - (N - 1)) 0 else r3)) = k"
    and "j < k \<Longrightarrow> (let r3 = drop 1 (map (\<lambda>i. row ! i) idx) in
      take k (if k < N - 1 then take k r3
              else if k > N - 1 then r3 @ replicate (k - (N - 1)) 0 else r3)) ! j
       = (if j < N - 1 then row ! (idx ! Suc j) else 0)"
proof -
  define r3 where "r3 = drop 1 (map (\<lambda>i. row ! i) idx)"
  have l3: "length r3 = N - 1" using assms(1) by (simp add: r3_def)
  have n3: "r3 ! j = row ! (idx ! Suc j)" if "j < N - 1" for j
    using that assms(1) by (simp add: r3_def)
  show "length (let r3 = drop 1 (map (\<lambda>i. row ! i) idx) in
      take k (if k < N - 1 then take k r3
              else if k > N - 1 then r3 @ replicate (k - (N - 1)) 0 else r3)) = k"
    unfolding Let_def r3_def [symmetric] using l3 by auto
  show "(let r3 = drop 1 (map (\<lambda>i. row ! i) idx) in
      take k (if k < N - 1 then take k r3
              else if k > N - 1 then r3 @ replicate (k - (N - 1)) 0 else r3)) ! j
       = (if j < N - 1 then row ! (idx ! Suc j) else 0)" if "j < k"
    unfolding Let_def r3_def [symmetric] using that l3 n3 by (auto simp: nth_append)
qed

lemma distinct_pairs:
  "distinct U \<Longrightarrow> distinct L \<Longrightarrow> distinct (concat (map (\<lambda>x. map (\<lambda>y. [x, y]) L) U))"
proof (induction U)
  case Nil
  then show ?case by simp
next
  case (Cons x U)
  have "distinct (map (\<lambda>y. [x, y]) L)"
    using Cons.prems(2) by (simp add: distinct_map inj_on_def)
  moreover have "distinct (concat (map (\<lambda>x. map (\<lambda>y. [x, y]) L) U))"
    using Cons by simp
  moreover have "set (map (\<lambda>y. [x, y]) L) \<inter> set (concat (map (\<lambda>x. map (\<lambda>y. [x, y]) L) U)) = {}"
    using Cons.prems(1) by auto
  ultimately show ?case by simp
qed

lemma distinct_names:
  assumes "distinct U" and "distinct L"
  shows "distinct (map (\<lambda>x. [x]) U @ concat (map (\<lambda>x. map (\<lambda>y. [x, y]) L) U))"
proof -
  have "distinct (map (\<lambda>x. [x]) U)"
    using assms(1) by (simp add: distinct_map inj_on_def)
  moreover have "set (map (\<lambda>x. [x]) U) \<inter> set (concat (map (\<lambda>x. map (\<lambda>y. [x, y]) L) U)) = {}"
    by auto
  ultimately show ?thesis using distinct_pairs [OF assms] by simp
qed

lemma distinct_SEGMENT_NAMES: "distinct SEGMENT_NAMES"
  unfolding SEGMENT_NAMES_def
proof (rule distinct_names)
  show "distinct ascii_uppercase" by code_simp
  show "distinct ascii_lowercase" by code_simp
qed

lemma length_SEGMENT_NAMES: "length SEGMENT_NAMES = 702"
  by code_simp

lemma rect_eye: "rect n n (eye n k)"
  by (simp add: rect_def eye_def list_all_iff)

lemma eye_nth: "i < n \<Longrightarrow> j < n \<Longrightarrow> eye n k ! i ! j = (if int j = int i + k then 1 else 0)"
  by (simp add: eye_def)

lemma rect_mat_map2: "rect n m A \<Longrightarrow> rect n m B \<Longrightarrow> rect n m (mat_map2 f A B)"
  by (simp add: rect_def mat_map2_def list_all_length)

lemma mat_map2_nth:
  "rect n m A \<Longrightarrow> rect n m B \<Longrightarrow> i < n \<Longrightarrow> j < m \<Longrightarrow>
   mat_map2 f A B ! i ! j = f (A ! i ! j) (B ! i ! j)"
  by (simp add: rect_def mat_map2_def list_all_length)

lemma rect_cdist: "rect (length X) (length Y) (cdist X Y)"
  by (simp add: rect_def cdist_def list_all_iff)

lemma cdist_nth:
  "i < length X \<Longrightarrow> j < length Y \<Longrightarrow>
   cdist X Y ! i ! j = sqrt (sum_list (map2 (\<lambda>a b. (a - b)\<^sup>2) (X ! i) (Y ! j)))"
  by (simp add: cdist_def)

lemma sum_sq_commute:
  "sum_list (map2 (\<lambda>a b. (a - b)\<^sup>2) x y) = sum_list (map2 (\<lambda>a b. (a - b)\<^sup>2) y (x::real list))"
proof (induction x arbitrary: y)
  case Nil
  then show ?case by simp
next
  case (Cons a x)
  then show ?case by (cases y) (simp_all add: power2_commute)
qed

lemma sum_sq_same: "sum_list (map2 (\<lambda>a b. (a - b)\<^sup>2) x (x::real list)) = 0"
  by (induction x) simp_all

lemma cdist_sym: "i < length X \<Longrightarrow> j < length X \<Longrightarrow> cdist X X ! i ! j = cdist X X ! j ! i"
  by (simp add: cdist_nth sum_sq_commute)

lemma cdist_diag: "i < length X \<Longrightarrow> cdist X X ! i ! i = 0"
  by (simp add: cdist_nth sum_sq_same)

lemma median_ge:
  assumes "xs \<noteq> []" and "\<forall>x\<in>set xs. c \<le> x"
  shows "c \<le> median xs"
proof -
  let ?s = "sort xs" and ?n = "length xs"
  have pos: "0 < ?n" using assms(1) by simp
  have "?n div 2 < ?n" "?n div 2 - 1 < ?n" using pos by linarith+
  then have "?n div 2 < length ?s" "?n div 2 - 1 < length ?s" by simp_all
  then have "?s ! (?n div 2) \<in> set ?s" "?s ! (?n div 2 - 1) \<in> set ?s"
    using nth_mem by blast+
  then have "c \<le> ?s ! (?n div 2)" "c \<le> ?s ! (?n div 2 - 1)"
    using assms(2) by simp_all
  then show ?thesis by (simp add: median_def Let_def)
qed

lemma nth_le_sum_list:
  fixes xs :: "real list"
  assumes "\<forall>x\<in>set xs. 0 \<le> x" and "i < length xs"
  shows "xs ! i \<le> sum_list xs"
  using assms
proof (induction xs arbitrary: i)
  case Nil
  then show ?case by simp
next
  case (Cons x xs)
  have nn: "0 \<le> sum_list xs" using Cons.prems(1) by (simp add: sum_list_nonneg)
  show ?case
  proof (cases i)
    case 0
    then show ?thesis using nn by simp
  next
    case (Suc i')
    then have "xs ! i' \<le> sum_list xs" using Cons by simp
    then show ?thesis using Suc Cons.prems(1) by simp
  qed
qed

text \<open>The entries of the affinity matrix on the default path.\<close>

lemma label_build_affinity_entries:
  assumes n: "2 \<le> length X"
    and K: "rect (length X) (length X) (recurrence_matrix lib (transpose X) (min k (int (length X) - 1)))"
  shows "\<exists>A s. label_build_affinity lib X k False = Inr A \<and> rect (length X) (length X) A \<and>
           SIGMA_MIN \<le> s \<and>
           (\<forall>i<length X. \<forall>j<length X.
              A ! i ! j = exp (- 0.5 * ((cdist X X ! i ! j)\<^sup>2 / s))
                * (recurrence_matrix lib (transpose X) (min k (int (length X) - 1)) ! i ! j
                   + (if j = i then 1 else 0)))"
proof -
  let ?n = "length X"
  let ?K = "recurrence_matrix lib (transpose X) (min k (int ?n - 1))"
  let ?D = "map (map (\<lambda>v. v\<^sup>2)) (cdist X X)"
  let ?Dsort = "map (\<lambda>v. max v SIGMA_MIN) (map (\<lambda>row. sort row ! 1) ?D)"
  let ?s = "median ?Dsort"
  let ?E = "map (map (\<lambda>v. exp (- 0.5 * v))) (divide_by ?D (Global ?s))"
  let ?A = "mat_map2 (*) ?E (mat_map2 (+) ?K (eye ?n 0))"
  have kb: "kernel_bandwidth ?D False = Global ?s"
    by (simp add: kernel_bandwidth_def Let_def)
  have res: "label_build_affinity lib X k False = Inr ?A"
    using n unfolding label_build_affinity_def Let_def kb by simp
  have rD: "rect ?n ?n (cdist X X)" by (rule rect_cdist)
  have rE: "rect ?n ?n ?E"
    using rD by (simp add: rect_def list_all_iff)
  have rK: "rect ?n ?n (mat_map2 (+) ?K (eye ?n 0))"
    using K rect_eye by (rule rect_mat_map2)
  have rA: "rect ?n ?n ?A" using rE rK by (rule rect_mat_map2)
  have "length ?Dsort = ?n" by (simp add: cdist_def)
  then have "?Dsort \<noteq> []" using n by auto
  moreover have "\<forall>x\<in>set ?Dsort. SIGMA_MIN \<le> x" by auto
  ultimately have s: "SIGMA_MIN \<le> ?s" by (rule median_ge)
  have ent: "?A ! i ! j = exp (- 0.5 * ((cdist X X ! i ! j)\<^sup>2 / ?s)) * (?K ! i ! j + (if j = i then 1 else 0))"
    if ij: "i < ?n" "j < ?n" for i j
  proof -
    have "?A ! i ! j = ?E ! i ! j * (mat_map2 (+) ?K (eye ?n 0) ! i ! j)"
      using rE rK ij by (rule mat_map2_nth)
    moreover have "mat_map2 (+) ?K (eye ?n 0) ! i ! j = ?K ! i ! j + eye ?n 0 ! i ! j"
      using K rect_eye ij by (rule mat_map2_nth)
    moreover have "eye ?n 0 ! i ! j = (if j = i then 1 else 0)"
      using ij by (simp add: eye_nth)
    moreover have "?E ! i ! j = exp (- 0.5 * ((cdist X X ! i ! j)\<^sup>2 / ?s))"
    proof -
      have l1: "length (cdist X X) = ?n" and l2: "length (cdist X X ! i) = ?n"
        using rD rect_nth [OF rD ij(1)] by (simp_all add: rect_def)
      show ?thesis using ij l1 l2 by simp
    qed
    ultimately show ?thesis by simp
  qed
  from res rA s ent show ?thesis by blast
qed


lemma sum_list_pos_row:
  fixes xs :: "real list"
  assumes "\<forall>x\<in>set xs. 0 \<le> x" and "i < length xs" and "1 \<le> xs ! i"
  shows "0 < sum_list xs"
  using nth_le_sum_list [OF assms(1,2)] assms(3) by linarith

lemma rw_laplacian_defined:
  assumes "\<forall>row\<in>set A. 0 < sum_list row"
  shows "rw_laplacian A \<noteq> None"
proof -
  have "\<not> list_ex (\<lambda>v. v = 0) (map sum_list A)"
    using assms by (auto simp: list_ex_iff)
  then show ?thesis by (simp add: rw_laplacian_def Let_def)
qed

text \<open>The entries of the graph that \<open>repetition\<close> passes to \<open>rw_laplacian\<close>.\<close>

lemma repetition_graph_entries:
  assumes R: "rect N N Rf" and N: "0 < N"
  shows "rect N N (repetition_graph Rf)"
    and "i < N \<Longrightarrow> j < N \<Longrightarrow>
         repetition_graph Rf ! i ! j =
           max (Rf ! i ! j) (Rf ! j ! i) + (if int j = int i + 1 then 1 else 0)
             + (if int j = int i - 1 then 1 else 0)"
proof -
  have len: "length Rf = N" using R by (simp add: rect_def)
  have tr: "transpose Rf = map (\<lambda>j. map (\<lambda>row. row ! j) Rf) [0..<N]"
    using R N by (rule transpose_rect)
  have rT: "rect N N (transpose Rf)"
    unfolding tr using len by (simp add: rect_def list_all_iff)
  have nT: "transpose Rf ! i ! j = Rf ! j ! i" if "i < N" "j < N" for i j
    unfolding tr using that len by simp
  let ?R' = "mat_map2 max Rf (transpose Rf)"
  have rR': "rect N N ?R'" using R rT by (rule rect_mat_map2)
  then have lR': "length ?R' = N" by (simp add: rect_def)
  have rS: "rect N N (mat_map2 (+) ?R' (eye N 1))"
    using rR' rect_eye by (rule rect_mat_map2)
  have def: "repetition_graph Rf = mat_map2 (+) (mat_map2 (+) ?R' (eye N 1)) (eye N (- 1))"
    by (simp add: repetition_graph_def Let_def lR')
  show "rect N N (repetition_graph Rf)"
    unfolding def using rS rect_eye by (rule rect_mat_map2)
  show "repetition_graph Rf ! i ! j =
           max (Rf ! i ! j) (Rf ! j ! i) + (if int j = int i + 1 then 1 else 0)
             + (if int j = int i - 1 then 1 else 0)" if ij: "i < N" "j < N"
  proof -
    have "repetition_graph Rf ! i ! j = mat_map2 (+) ?R' (eye N 1) ! i ! j + eye N (- 1) ! i ! j"
      unfolding def using rS rect_eye ij by (rule mat_map2_nth)
    moreover have "mat_map2 (+) ?R' (eye N 1) ! i ! j = ?R' ! i ! j + eye N 1 ! i ! j"
      using rR' rect_eye ij by (rule mat_map2_nth)
    moreover have "?R' ! i ! j = max (Rf ! i ! j) (transpose Rf ! i ! j)"
      using R rT ij by (rule mat_map2_nth)
    ultimately show ?thesis using ij by (simp add: nT eye_nth)
  qed
qed

lemma sum_list_const_minus:
  fixes f :: "real \<Rightarrow> real"
  shows "sum_list (map (\<lambda>x. c - f x) xs) = real (length xs) * c - sum_list (map f xs)"
  by (induction xs) (simp_all add: algebra_simps)

lemma sum_list_divide:
  fixes f :: "real \<Rightarrow> real"
  shows "sum_list (map (\<lambda>x. f x / c) xs) = sum_list (map f xs) / c"
  by (induction xs) (simp_all add: add_divide_distrib)

lemma row_unit_loglik:
  assumes "2 \<le> length row"
  shows "sum_list (map (\<lambda>x. - 0.5 * ln (2 * pi) - (x - mean row)\<^sup>2 / 2) row)
         = - 0.5 * real (length row) * ln (2 * pi) - 0.5 * (real (length row) - 1) * var_ddof1 row"
proof -
  have ne: "real (length row) - 1 \<noteq> 0" using assms by simp
  have v: "(real (length row) - 1) * var_ddof1 row = sum_list (map (\<lambda>x. (x - mean row)\<^sup>2) row)"
    using ne by (simp add: var_ddof1_def mean_def Let_def)
  have "sum_list (map (\<lambda>x. - 0.5 * ln (2 * pi) - (x - mean row)\<^sup>2 / 2) row)
        = real (length row) * (- 0.5 * ln (2 * pi)) - sum_list (map (\<lambda>x. (x - mean row)\<^sup>2 / 2) row)"
    by (rule sum_list_const_minus)
  also have "sum_list (map (\<lambda>x. (x - mean row)\<^sup>2 / 2) row)
        = sum_list (map (\<lambda>x. (x - mean row)\<^sup>2) row) / 2"
    by (rule sum_list_divide)
  finally show ?thesis using v by (simp add: algebra_simps)
qed

lemma sum_list_rows:
  fixes f g :: "real list \<Rightarrow> real"
  assumes "\<forall>row\<in>set Y. f row = a - b * g row"
  shows "sum_list (map f Y) = real (length Y) * a - b * sum_list (map g Y)"
  using assms by (induction Y) (simp_all add: algebra_simps)

lemma columns_rect:
  assumes "list_all (\<lambda>row. length row = m) X"
  shows "list_all (\<lambda>row. length row = ncols (columns X s e)) (columns X s e)"
proof -
  have "\<forall>row\<in>set (columns X s e). length row = length (py_slice (replicate m (0::real)) s e)"
    using assms by (auto simp: columns_def py_slice_def list_all_iff)
  then show ?thesis
    by (cases "columns X s e") (auto simp: ncols_def list_all_iff)
qed

lemma ncols_rect: "rect D N X \<Longrightarrow> 0 < D \<Longrightarrow> ncols X = N"
  by (cases X) (simp_all add: rect_def ncols_def)

lemma unit_sum_closed_form:
  assumes "list_all (\<lambda>row. length row = ncols Y) Y" and "2 \<le> ncols Y"
  shows "sum_list (map (\<lambda>row. sum_list (map (\<lambda>x. - 0.5 * ln (2 * pi) - (x - mean row)\<^sup>2 / 2) row)) Y)
         = - 0.5 * real (nrows Y) * real (ncols Y) * ln (2 * pi)
           - 0.5 * (real (ncols Y) - 1) * sum_list (map var_ddof1 Y)"
proof -
  let ?n = "ncols Y"
  have rows: "\<forall>row\<in>set Y.
      sum_list (map (\<lambda>x. - 0.5 * ln (2 * pi) - (x - mean row)\<^sup>2 / 2) row)
      = - 0.5 * real ?n * ln (2 * pi) - (0.5 * (real ?n - 1)) * var_ddof1 row"
  proof
    fix row assume "row \<in> set Y"
    then have l: "length row = ?n" using assms(1) by (simp add: list_all_iff)
    then have "2 \<le> length row" using assms(2) by simp
    from row_unit_loglik [OF this] show
      "sum_list (map (\<lambda>x. - 0.5 * ln (2 * pi) - (x - mean row)\<^sup>2 / 2) row)
       = - 0.5 * real ?n * ln (2 * pi) - (0.5 * (real ?n - 1)) * var_ddof1 row"
      using l by simp
  qed
  show ?thesis
    using sum_list_rows [OF rows] by (simp add: nrows_def algebra_simps)
qed

lemma gaussian_cost_unit_average:
  assumes "list_all (\<lambda>row. length row = ncols Y) Y" and "2 \<le> ncols Y"
  shows "gaussian_cost Y = real (ncols Y) * unit_average_loglik Y"
proof -
  have "gaussian_cost Y = - 0.5 * real (nrows Y) * real (ncols Y) * ln (2 * pi)
           - 0.5 * (real (ncols Y) - 1) * sum_list (map var_ddof1 Y)"
    using assms(2) by (simp add: gaussian_cost_def Let_def)
  also have "\<dots> = sum_list (map (\<lambda>row. sum_list (map (\<lambda>x. - 0.5 * ln (2 * pi) - (x - mean row)\<^sup>2 / 2) row)) Y)"
    using unit_sum_closed_form [OF assms] by simp
  also have "\<dots> = real (ncols Y) * unit_average_loglik Y"
    using assms(2) by (simp add: unit_average_loglik_def)
  finally show ?thesis .
qed

lemma segment_term_weighted:
  assumes "list_all (\<lambda>row. length row = m) X"
  shows "gaussian_cost (columns X s e)
         = (if ncols (columns X s e) < 2 then 0
            else real (ncols (columns X s e)) * unit_average_loglik (columns X s e))"
proof (cases "ncols (columns X s e) < 2")
  case True
  then show ?thesis by (simp add: gaussian_cost_def Let_def)
next
  case False
  then have "2 \<le> ncols (columns X s e)" by simp
  from gaussian_cost_unit_average [OF columns_rect [OF assms] this] False
  show ?thesis by simp
qed

subsection \<open>The model on a concrete input\<close>

text \<open>
  Four frames with one feature each, and identity transforms. With the concrete library
  every candidate has spectral cost 0.
\<close>

lemma example_transpose: "transpose [[0::real,1,2,3]] = [[0],[1],[2],[3]]"
  by code_simp

lemma example_distances: "map (map (\<lambda>v. v\<^sup>2)) (cdist [[0],[1],[2],[3]] [[0],[1],[2],[3]]) = [[0,1,4,9],[1,0,1,4],[4,1,0,1],[9,4,1,0]]"
  by (simp add: cdist_def)

lemma example_bandwidth: "kernel_bandwidth [[0,1,4,9],[1,0,1,4],[4,1,0,1],[9,4,1,0]] False = Global 1"
  by (simp add: kernel_bandwidth_def median_def SIGMA_MIN_def)

lemma example_sync: "sync example_library X b = X"
  and example_recurrence_matrix: "recurrence_matrix example_library X k = replicate (ncols X) (replicate (ncols X) 0)"
  and example_agglomerative: "agglomerative example_library X k = map int [0..<nat k]"
  by (simp_all add: example_library_def)

lemma eye_4: "eye 4 0 = [[1,0,0,0],[0,1,0,0],[0,0,1,0],[0,0,0,1]]"
  by code_simp

lemma example_affinity: "label_build_affinity example_library [[0],[1],[2],[3]] LABEL_K False = Inr (eye 4 0)"
proof -
  have r: "replicate 4 (replicate 4 (0::real)) = [[0,0,0,0],[0,0,0,0],[0,0,0,0],[0,0,0,0]]"
    by code_simp
  have l: "length [[0::real],[1],[2],[3]] = 4" by simp
  have t2: "transpose [[0::real],[1],[2],[3]] = [[0,1,2,3]]" by code_simp
  show ?thesis
    unfolding label_build_affinity_def Let_def example_distances example_bandwidth l
    by (simp add: example_recurrence_matrix ncols_def LABEL_K_def mat_map2_def t2 r eye_4)
qed

lemma example_estimate: "label_estimate_n_components example_library (eye 4 0) = Inr (1, 0)"
  by code_simp

lemma example_spectral_cost: "spectral_cost example_library [[0,1,2,3]] b = Inr 0"
  unfolding spectral_cost_def
  by (simp add: example_sync example_transpose example_affinity example_estimate GAP_TAU_def)

lemma example_get_k_segments: "get_k_segments example_library [[0,1,2,3]] [[0,1,2,3]] k True = Inr (unique ([0] @ map int [0..<nat k] @ [4]), 0)"
  unfolding get_k_segments_def Let_def
  by (simp add: example_spectral_cost example_agglomerative ncols_def)

lemma example_mat_dot: "mat_dot [[1]] [[0,1,2,3]] = [[0,1,2,3]]"
  by code_simp

lemma example_get_segments:
  "get_segments example_library [[0,1,2,3]] [[1]] [[1]] True 2 4 = Inr [0,1,2,4]"
  unfolding get_segments_def Let_def example_mat_dot
  apply (simp add: example_get_k_segments range_down.simps unique_def)
  apply code_simp
  done

lemma example_transpose_points: "transpose [[0::real],[1],[2],[3]] = [[0,1,2,3]]"
  by code_simp

lemma example_neighbours:
  "recurrence_matrix example_library (transpose [[0],[1],[2],[3]]) k
     = [[0,0,0,0],[0,0,0,0],[0,0,0,0],[0,0,0,0]]"
  unfolding example_transpose_points example_recurrence_matrix by code_simp

lemma example_columns_pair: "columns [[0,4]] 0 2 = [[0,4]]"
  by (simp add: columns_def py_slice_def slice_bound_def)

lemma example_var_pair: "var_ddof1 [0,4] = 8" and example_mean_pair: "mean [0,4] = 2"
  by (simp_all add: var_ddof1_def mean_def Let_def)

lemma example_gaussian_cost_pair: "gaussian_cost [[0,4]] = - ln (2 * pi) - 4"
  by (simp add: gaussian_cost_def Let_def nrows_def ncols_def example_var_pair)

lemma example_clustering_cost_pair: "clustering_cost [[0,4]] [0,2] = ln (2 * pi) + 6"
  by (simp add: clustering_cost_def Let_def example_columns_pair example_gaussian_cost_pair
      nrows_def ncols_def field_simps)

lemma ln_16_pi: "ln (16 * pi) = ln (2 * pi) + ln 8"
proof -
  have "ln (2 * pi * 8) = ln (2 * pi) + ln 8"
    by (rule ln_mult_pos) simp_all
  then show ?thesis by (simp add: mult.commute)
qed

lemma ln_8_le: "ln (8::real) \<le> 3"
proof -
  have "ln ((2::real) ^ 3) = real 3 * ln 2" by (rule ln_realpow)
  moreover have "(2::real) ^ 3 = 8" by simp
  ultimately have "ln (8::real) = 3 * ln 2" by simp
  moreover have "ln (2::real) \<le> 1" using ln_le_minus_one [of "2::real"] by simp
  ultimately show ?thesis by linarith
qed

lemma example_spec_loglik_pair: "spec_segment_loglik [[0,4]] = - ln (16 * pi) / 2 - 1 / 4"
  by (simp add: spec_segment_loglik_def ncols_def example_var_pair example_mean_pair
      normal_logpdf_def field_simps)

lemma example_spec_cost_pair: "spec_clustering_cost [[0,4]] [0,2] = ln (16 * pi) / 2 + 9 / 4"
  by (simp add: spec_clustering_cost_def example_columns_pair example_spec_loglik_pair
      nrows_def ncols_def field_simps)

lemma cost_gap:
  fixes L e :: real
  assumes "0 < L" and "e \<le> 3"
  shows "L + 6 \<noteq> (L + e) / 2 + 9 / 4" and "- L - 4 \<noteq> 2 * (- (L + e) / 2 - 1 / 4)"
  using assms by (auto simp: field_simps)

lemma example_n_clusters: "n_clusters example_library (eye 4 0) = Inr 2"
  by (simp add: n_clusters_def example_estimate length_eye)

lemma example_names: "names_of [0, 0, 0, 0] = Inr [''A'', ''A'', ''A'', ''A'']"
  "names_of [1, 1, 1, 1] = Inr [''B'', ''B'', ''B'', ''B'']"
  by code_simp+

subsection \<open>The greedy search\<close>

text \<open>
  C1. For \<open>kmin < kmax\<close>, \<open>get_segments\<close> tries the segment counts \<open>kmax, kmax - 1, \<dots>\<close> in
  this order. The first candidate is always accepted (the best cost starts at infinity), a
  candidate is accepted when its cost is at most the cost of the one accepted before it,
  and the scan stops at the first candidate whose cost is strictly larger. The result is
  the boundary set of the last accepted candidate \<open>kmax - n\<close>: the costs do not increase
  along the candidates \<open>kmax, \<dots>, kmax - n\<close>, and the next candidate, if there is one,
  costs strictly more. Here \<open>S k\<close> and \<open>c k\<close> are the boundary set and the cost that
  \<open>get_k_segments\<close> returns for \<open>k\<close>.
\<close>

theorem get_segments_greedy:
  assumes "kmin < kmax"
    and "\<forall>k. kmin < k \<and> k \<le> kmax \<longrightarrow>
           get_k_segments lib (mat_dot W_bound X) (mat_dot W_lab X) k use_spectral = Inr (S k, c k)"
  shows "range_down kmax kmin = map (\<lambda>i. kmax - int i) [0..<nat (kmax - kmin)] \<and>
         (\<exists>n<nat (kmax - kmin).
            get_segments lib X W_bound W_lab use_spectral kmin kmax = Inr (S (kmax - int n)) \<and>
            (\<forall>i<n. c (kmax - int (Suc i)) \<le> c (kmax - int i)) \<and>
            (Suc n < nat (kmax - kmin) \<longrightarrow> c (kmax - int n) < c (kmax - int (Suc n))))"
proof -
  let ?gks = "\<lambda>k. get_k_segments lib (mat_dot W_bound X) (mat_dot W_lab X) k use_spectral"
  let ?ks = "range_down kmax kmin"
  have ks: "?ks = map (\<lambda>i. kmax - int i) [0..<nat (kmax - kmin)]"
    by (rule range_down_eq)
  have len: "length ?ks = nat (kmax - kmin)" and nth: "\<And>i. i < nat (kmax - kmin) \<Longrightarrow> ?ks ! i = kmax - int i"
    by (simp_all add: ks)
  have all: "\<forall>k\<in>set ?ks. ?gks k = Inr (S k, c k)"
    using assms(2) by (auto simp: ks)
  have ne: "?ks \<noteq> []" using assms(1) by (simp add: ks)
  have "cost_le (c (hd ?ks)) Infinity" by simp
  from scan_accept [OF all ne this, of "[]"]
  obtain n where n: "n < length ?ks" "scan ?gks ?ks Infinity [] = Inr (S (?ks ! n))"
    "\<forall>i<n. c (?ks ! Suc i) \<le> c (?ks ! i)" "Suc n < length ?ks \<longrightarrow> c (?ks ! n) < c (?ks ! Suc n)"
    by blast
  have lt: "n < nat (kmax - kmin)" using n(1) len by simp
  have "get_segments lib X W_bound W_lab use_spectral kmin kmax = Inr (S (kmax - int n))"
    using n(1,2) nth len by (simp add: get_segments_def Let_def)
  moreover have "\<forall>i<n. c (kmax - int (Suc i)) \<le> c (kmax - int i)"
  proof (intro allI impI)
    fix i assume i: "i < n"
    then have "i < nat (kmax - kmin)" "Suc i < nat (kmax - kmin)" using n(1) len by linarith+
    then show "c (kmax - int (Suc i)) \<le> c (kmax - int i)"
      using n(3) i nth by metis
  qed
  moreover have "Suc n < nat (kmax - kmin) \<longrightarrow> c (kmax - int n) < c (kmax - int (Suc n))"
  proof
    assume a: "Suc n < nat (kmax - kmin)"
    then have "n < nat (kmax - kmin)" by simp
    then show "c (kmax - int n) < c (kmax - int (Suc n))"
      using n(4) a nth len by metis
  qed
  ultimately have "\<exists>n<nat (kmax - kmin).
      get_segments lib X W_bound W_lab use_spectral kmin kmax = Inr (S (kmax - int n)) \<and>
      (\<forall>i<n. c (kmax - int (Suc i)) \<le> c (kmax - int i)) \<and>
      (Suc n < nat (kmax - kmin) \<longrightarrow> c (kmax - int n) < c (kmax - int (Suc n)))"
    using lt by blast
  with ks show ?thesis by (rule conjI)
qed

theorem get_segments_greedy_witness:
  "(1::int) < 3 \<and> get_segments example_library [[0,1,2,3]] [[1]] [[1]] True 1 3 = Inr [0,1,4]"
proof -
  let ?S = "\<lambda>k. unique ([0] @ map int [0..<nat k] @ [4])"
  have lt: "(1::int) < 3" by simp
  have all: "\<forall>k. 1 < k \<and> k \<le> 3 \<longrightarrow>
      get_k_segments example_library (mat_dot [[1]] [[0,1,2,3]]) (mat_dot [[1]] [[0,1,2,3]]) k True
        = Inr (?S k, (\<lambda>k. 0) k)"
    by (simp add: example_mat_dot example_get_k_segments)
  from get_segments_greedy [OF lt all] obtain n where
    n: "n < nat (3 - 1)"
       "get_segments example_library [[0,1,2,3]] [[1]] [[1]] True 1 3 = Inr (?S (3 - int n))"
       "Suc n < nat (3 - 1) \<longrightarrow> (0::real) < 0"
    by blast
  from n(1,3) have "n = 1" by simp
  moreover have "?S 2 = [0,1,4]" by code_simp
  ultimately show ?thesis using n(2) by simp
qed

text \<open>
  C3. The candidates are the segment counts from \<open>kmax\<close> down to \<open>kmin + 1\<close>: for the
  bounds 2 and 4 they are 4 and 3. On the input below every candidate has cost 0, so the
  scan never stops early; the count 2 would have cost 0 as well, and the result is the
  boundary set of the count 3.
\<close>

theorem get_segments_skips_kmin:
  "range_down 4 2 = [4, 3] \<and>
   get_k_segments example_library [[0,1,2,3]] [[0,1,2,3]] 4 True = Inr ([0,1,2,3,4], 0) \<and>
   get_k_segments example_library [[0,1,2,3]] [[0,1,2,3]] 3 True = Inr ([0,1,2,4], 0) \<and>
   get_k_segments example_library [[0,1,2,3]] [[0,1,2,3]] 2 True = Inr ([0,1,4], 0) \<and>
   get_segments example_library [[0,1,2,3]] [[1]] [[1]] True 2 4 = Inr [0,1,2,4]"
proof -
  have "unique ([0] @ map int [0..<nat 4] @ [4]) = [0,1,2,3,4]"
    "unique ([0] @ map int [0..<nat 3] @ [4]) = [0,1,2,4]"
    "unique ([0] @ map int [0..<nat 2] @ [4]) = [0,1,4]"
    by code_simp+
  then show ?thesis
    by (simp add: example_get_k_segments example_get_segments range_down.simps)
qed

subsection \<open>Boundary sets\<close>

text \<open>
  C2. Let \<open>N\<close> be the number of frames (columns) of \<open>X_bound\<close>. When the boundaries that
  the library's clustering returns for \<open>k\<close> are frame indices between 0 and \<open>N\<close>, the
  boundary set that \<open>get_k_segments\<close> returns starts with 0, ends with \<open>N\<close> and is strictly
  increasing, so it has no duplicates. Consequently, for \<open>kmin < kmax\<close>, so has the
  boundary set that \<open>get_segments\<close> returns.
\<close>

theorem boundaries_sandwich:
  "((\<forall>b\<in>set (agglomerative lib X_bound k). 0 \<le> b \<and> b \<le> int (ncols X_bound)) \<longrightarrow>
      get_k_segments lib X_bound X_lab k use_spectral = Inr (boundaries, cost) \<longrightarrow>
      boundaries \<noteq> [] \<and> hd boundaries = 0 \<and> last boundaries = int (ncols X_bound) \<and>
      sorted_wrt (<) boundaries \<and> distinct boundaries) \<and>
   ((\<forall>k. kmin < k \<and> k \<le> kmax \<longrightarrow>
       (\<forall>b\<in>set (agglomerative lib (mat_dot W_bound X) k).
          0 \<le> b \<and> b \<le> int (ncols (mat_dot W_bound X)))) \<longrightarrow>
      kmin < kmax \<longrightarrow>
      get_segments lib X W_bound W_lab use_spectral kmin kmax = Inr S \<longrightarrow>
      S \<noteq> [] \<and> hd S = 0 \<and> last S = int (ncols (mat_dot W_bound X)) \<and>
      sorted_wrt (<) S \<and> distinct S)"
proof -
  have one: "bs \<noteq> [] \<and> hd bs = 0 \<and> last bs = int (ncols Y) \<and> sorted_wrt (<) bs \<and> distinct bs"
    if lib: "\<forall>b\<in>set (agglomerative lib Y j). 0 \<le> b \<and> b \<le> int (ncols Y)"
      and res: "get_k_segments lib Y Z j use_spectral = Inr (bs, c)" for Y Z j bs c
  proof -
    have "bs = unique ([0] @ agglomerative lib Y j @ [int (ncols Y)])"
      using res by (auto simp: get_k_segments_def Let_def split: if_splits sum.splits)
    with unique_sandwich [OF lib] show ?thesis
      by (simp add: strict_sorted_iff)
  qed
  have two: "S \<noteq> [] \<and> hd S = 0 \<and> last S = int (ncols (mat_dot W_bound X)) \<and>
      sorted_wrt (<) S \<and> distinct S"
    if lib: "\<forall>k. kmin < k \<and> k \<le> kmax \<longrightarrow>
       (\<forall>b\<in>set (agglomerative lib (mat_dot W_bound X) k).
          0 \<le> b \<and> b \<le> int (ncols (mat_dot W_bound X)))"
      and lt: "kmin < kmax"
      and res: "get_segments lib X W_bound W_lab use_spectral kmin kmax = Inr S"
  proof -
    have ne: "range_down kmax kmin \<noteq> []"
      using lt by (simp add: range_down.simps [of kmax kmin])
    from res have "scan (\<lambda>k. get_k_segments lib (mat_dot W_bound X) (mat_dot W_lab X) k use_spectral)
        (range_down kmax kmin) Infinity [] = Inr S"
      by (simp add: get_segments_def Let_def)
    from scan_candidate [OF ne this] obtain j c where
      j: "kmin < j" "j \<le> kmax"
      and g: "get_k_segments lib (mat_dot W_bound X) (mat_dot W_lab X) j use_spectral = Inr (S, c)"
      by (auto simp: range_down_set)
    from lib j have "\<forall>b\<in>set (agglomerative lib (mat_dot W_bound X) j).
          0 \<le> b \<and> b \<le> int (ncols (mat_dot W_bound X))" by blast
    from one [OF this g] show ?thesis .
  qed
  from one two show ?thesis by blast
qed

theorem boundaries_sandwich_witness:
  "get_k_segments example_library [[0,1,2,3]] [[0,1,2,3]] 3 True = Inr ([0,1,2,4], 0) \<and>
   (2::int) < 4 \<and>
   get_segments example_library [[0,1,2,3]] [[1]] [[1]] True 2 4 = Inr [0,1,2,4] \<and>
   hd [0,1,2,4] = (0::int) \<and> last [0,1,2,4] = int (ncols (mat_dot [[1]] [[0,1,2,3]])) \<and>
   sorted_wrt (<) [0,1,2,4::int]"
proof -
  have g: "get_k_segments example_library [[0,1,2,3]] [[0,1,2,3]] 3 True = Inr ([0,1,2,4], 0)"
    unfolding example_get_k_segments by code_simp
  have a1: "\<forall>b\<in>set (agglomerative example_library [[0,1,2,3]] 3).
      0 \<le> b \<and> b \<le> int (ncols [[0,1,2,3::real]])"
    by (auto simp: example_agglomerative ncols_def)
  have a2: "\<forall>k. 2 < k \<and> k \<le> 4 \<longrightarrow>
      (\<forall>b\<in>set (agglomerative example_library (mat_dot [[1]] [[0,1,2,3]]) k).
         0 \<le> b \<and> b \<le> int (ncols (mat_dot [[1]] [[0,1,2,3]])))"
    by (auto simp: example_agglomerative example_mat_dot ncols_def)
  show ?thesis
    using boundaries_sandwich [of example_library "[[0,1,2,3]]" 3 "[[0,1,2,3]]" True
        "[0,1,2,4]" 0 2 4 "[[1]]" "[[0,1,2,3]]" "[[1]]" "[0,1,2,4]"]
      a1 a2 g example_get_segments
    by simp
qed

subsection \<open>The likelihood cost\<close>

text \<open>
  C4 (as amended). For a \<open>D\<close>-by-\<open>N\<close> matrix with \<open>D \<ge> 1\<close> and \<open>N \<ge> 1\<close> and boundaries that
  cut it into \<open>k\<close> segments, the cost is
  \<open>-2 \<cdot> (\<Sum> over the segments of the segment's term) / N + 2 \<cdot> D \<cdot> k\<close>. A segment with fewer
  than two samples contributes zero. The term of a segment with \<open>n \<ge> 2\<close> samples is a
  positive multiple, which depends on \<open>n\<close> only, of the average per-sample log-likelihood
  under the Gaussian with unit variance centred at the segment's mean; this average is
  \<open>-0.5 \<cdot> D \<cdot> ln(2\<pi>) - 0.5 \<cdot> ((n - 1) / n) \<cdot> (\<Sum> of the sample variances with ddof = 1)\<close>.
\<close>

theorem clustering_cost_formula:
  "(\<exists>w. (\<forall>n. 0 < w n) \<and>
        (\<forall>D N X boundaries. rect D N X \<and> 0 < D \<and> 0 < N \<longrightarrow>
           clustering_cost X boundaries =
             - 2 * sum_list (map (\<lambda>(start, end).
                        if ncols (columns X start end) < 2 then 0
                        else w (ncols (columns X start end))
                             * unit_average_loglik (columns X start end))
                      (zip (butlast boundaries) (tl boundaries))) / real N
             + 2 * (real D * real_of_int (int (length boundaries) - 1)))) \<and>
   (\<forall>D n Y. rect D n Y \<and> 0 < D \<and> 2 \<le> n \<longrightarrow>
      unit_average_loglik Y =
        - 0.5 * real D * ln (2 * pi)
        - 0.5 * ((real n - 1) / real n) * sum_list (map var_ddof1 Y))"
proof (intro conjI exI [of _ "\<lambda>n. if n < 2 then 1 else real n"] allI impI)
  fix n :: nat
  show "0 < (if n < 2 then 1 else real n)" by simp
next
  fix D N and X :: matrix and boundaries :: "int list"
  assume a: "rect D N X \<and> 0 < D \<and> 0 < N"
  then have all: "list_all (\<lambda>row. length row = N) X" and D: "nrows X = D"
    by (simp_all add: rect_def nrows_def)
  have N: "ncols X = N" using a ncols_rect by blast
  have "(\<lambda>(start, end). gaussian_cost (columns X start end))
      = (\<lambda>(start, end). if ncols (columns X start end) < 2 then 0
                        else (if ncols (columns X start end) < 2 then 1
                              else real (ncols (columns X start end)))
                             * unit_average_loglik (columns X start end))"
    using segment_term_weighted [OF all] by auto
  then show "clustering_cost X boundaries =
             - 2 * sum_list (map (\<lambda>(start, end).
                        if ncols (columns X start end) < 2 then 0
                        else (if ncols (columns X start end) < 2 then 1
                              else real (ncols (columns X start end)))
                             * unit_average_loglik (columns X start end))
                      (zip (butlast boundaries) (tl boundaries))) / real N
             + 2 * (real D * real_of_int (int (length boundaries) - 1))"
    unfolding clustering_cost_def Let_def D N by (simp only:)
next
  fix D n and Y :: matrix
  assume a: "rect D n Y \<and> 0 < D \<and> 2 \<le> n"
  then have nc: "ncols Y = n" and nr: "nrows Y = D"
    using ncols_rect by (blast, simp add: rect_def nrows_def)
  have all: "list_all (\<lambda>row. length row = ncols Y) Y" using a nc by (simp add: rect_def)
  have n2: "2 \<le> ncols Y" using a nc by simp
  show "unit_average_loglik Y =
        - 0.5 * real D * ln (2 * pi)
        - 0.5 * ((real n - 1) / real n) * sum_list (map var_ddof1 Y)"
    using unit_sum_closed_form [OF all n2] a
    by (simp add: unit_average_loglik_def nc nr field_simps)
qed

theorem clustering_cost_formula_witness:
  "rect 1 2 [[0,4::real]] \<and> (0::nat) < 1 \<and> (0::nat) < 2 \<and>
   (\<exists>c. 0 < c \<and> clustering_cost [[0,4]] [0,2] = - 2 * (c * unit_average_loglik [[0,4]]) / 2 + 2) \<and>
   unit_average_loglik [[0,4]] = - 0.5 * ln (2 * pi) - 2"
proof -
  have r: "rect 1 2 [[0,4::real]] \<and> (0::nat) < 1 \<and> (0::nat) < 2" by (simp add: rect_def)
  have r2: "rect 1 2 [[0,4::real]] \<and> (0::nat) < 1 \<and> (2::nat) \<le> 2" by (simp add: rect_def)
  from clustering_cost_formula obtain w where
    w: "\<forall>n. 0 < w n"
    and c: "\<forall>D N X boundaries. rect D N X \<and> 0 < D \<and> 0 < N \<longrightarrow>
           clustering_cost X boundaries =
             - 2 * sum_list (map (\<lambda>(start, end).
                        if ncols (columns X start end) < 2 then 0
                        else w (ncols (columns X start end))
                             * unit_average_loglik (columns X start end))
                      (zip (butlast boundaries) (tl boundaries))) / real N
             + 2 * (real D * real_of_int (int (length boundaries) - 1))"
    and u: "\<forall>D n Y. rect D n Y \<and> 0 < D \<and> 2 \<le> n \<longrightarrow>
      unit_average_loglik Y =
        - 0.5 * real D * ln (2 * pi)
        - 0.5 * ((real n - 1) / real n) * sum_list (map var_ddof1 Y)"
    by blast
  from c r have "clustering_cost [[0,4]] [0,2] =
             - 2 * sum_list (map (\<lambda>(start, end).
                        if ncols (columns [[0,4]] start end) < 2 then 0
                        else w (ncols (columns [[0,4]] start end))
                             * unit_average_loglik (columns [[0,4]] start end))
                      (zip (butlast [0,2]) (tl [0,2]))) / real 2
             + 2 * (real 1 * real_of_int (int (length [0,2::int]) - 1))"
    by blast
  moreover have nc: "ncols [[0,4::real]] = 2" by (simp add: ncols_def)
  ultimately have "clustering_cost [[0,4]] [0,2] = - 2 * (w 2 * unit_average_loglik [[0,4]]) / 2 + 2"
    by (simp add: example_columns_pair)
  moreover have "0 < w 2" using w by blast
  moreover from u r2 have "unit_average_loglik [[0,4]] =
        - 0.5 * real 1 * ln (2 * pi)
        - 0.5 * ((real 2 - 1) / real 2) * sum_list (map var_ddof1 [[0,4]])"
    by blast
  then have "unit_average_loglik [[0,4]] = - 0.5 * ln (2 * pi) - 2"
    by (simp add: example_var_pair)
  ultimately show ?thesis using r by blast
qed

text \<open>
  On one feature with the two samples 0 and 4 in one segment (sample variance 8) the cost
  differs from the cost in the words of the specification, and the segment's term differs
  from \<open>n\<close> times the average log-likelihood under the fitted Gaussian as well.
\<close>

theorem clustering_cost_not_fitted:
  "clustering_cost [[0,4]] [0,2] \<noteq> spec_clustering_cost [[0,4]] [0,2] \<and>
   gaussian_cost [[0,4]] \<noteq> 2 * spec_segment_loglik [[0,4]]"
proof -
  have "1 < 2 * pi" using pi_ge_two by simp
  then have pos: "0 < ln (2 * pi)" by simp
  from cost_gap [OF pos ln_8_le] show ?thesis
    unfolding example_clustering_cost_pair example_spec_cost_pair example_gaussian_cost_pair
      example_spec_loglik_pair ln_16_pi
    by blast
qed

subsection \<open>The spectral embedding\<close>

text \<open>
  C5. Let \<open>L\<close> be an \<open>N\<close>-by-\<open>N\<close> matrix, \<open>N \<ge> 2\<close>, for which the eigen-decomposition
  returns \<open>N\<close> eigenvalues and an \<open>N\<close>-by-\<open>N\<close> matrix of eigenvectors. Then
  \<open>laplacian_eigenvectors\<close> returns exactly \<open>k\<close> rows of length \<open>N\<close>: the eigenvectors in
  ascending order of the real parts of their eigenvalues, without the first one, cut to
  the first \<open>k\<close> when more remain, and followed by rows of zeros when fewer than \<open>k\<close> remain.
\<close>

theorem laplacian_eigenvectors_shape:
  assumes eig: "eig lib L = (e_vals, e_vecs)"
    and vals: "length e_vals = N" and vecs: "rect N N e_vecs" and N: "2 \<le> N"
  shows "rect k N (laplacian_eigenvectors lib L k) \<and>
         set (argsort (map Re e_vals)) = {0..<N} \<and> distinct (argsort (map Re e_vals)) \<and>
         sorted (map (\<lambda>i. Re (e_vals ! i)) (argsort (map Re e_vals))) \<and>
         laplacian_eigenvectors lib L k =
           take k (map (\<lambda>i. map (\<lambda>row. row ! i) e_vecs) (drop 1 (argsort (map Re e_vals))))
           @ replicate (k - (N - 1)) (replicate N 0)"
proof -
  define idx where "idx = argsort (map Re e_vals)"
  define e_vecs3 where "e_vecs3 = map (drop 1) (map (\<lambda>row. map (\<lambda>i. row ! i) idx) e_vecs)"
  define e_vecs4 where "e_vecs4 =
     (if k < N - 1 then map (take k) e_vecs3
      else if k > N - 1 then map (\<lambda>row. row @ replicate (k - (N - 1)) 0) e_vecs3
      else e_vecs3)"
  have lidx: "length idx = N" using vals by (simp add: idx_def length_argsort)
  have len: "length e_vecs = N" using vecs by (simp add: rect_def)
  have pos: "0 < N" using N by simp
  have ne: "e_vecs \<noteq> []" using len pos by auto
  have nc: "ncols e_vecs3 = N - 1"
  proof -
    obtain r rs where "e_vecs = r # rs" using ne by (cases e_vecs) auto
    then show ?thesis using lidx by (simp add: ncols_def e_vecs3_def)
  qed
  have lev: "length (drop 1 (map (\<lambda>i. map Re e_vals ! i) idx)) = N - 1"
    using lidx by simp
  have res: "laplacian_eigenvectors lib L k = transpose (map (take k) e_vecs4)"
    unfolding laplacian_eigenvectors_def eig prod.case Let_def
    apply (fold idx_def)
    apply (fold e_vecs3_def)
    apply (unfold lev nc)
    apply (fold e_vecs4_def)
    apply (rule refl)
    done
  let ?row4 = "\<lambda>row. (let r3 = drop 1 (map (\<lambda>i. row ! i) idx) in
      take k (if k < N - 1 then take k r3
              else if k > N - 1 then r3 @ replicate (k - (N - 1)) 0 else r3))"
  have m4: "map (take k) e_vecs4 = map ?row4 e_vecs"
    by (simp add: e_vecs4_def e_vecs3_def Let_def)
  have r4: "rect N k (map ?row4 e_vecs)"
    using embedding_row(1) [OF lidx pos] len
    by (simp add: rect_def list_all_iff Let_def)
  have tr: "transpose (map ?row4 e_vecs) = map (\<lambda>j. map (\<lambda>row. row ! j) (map ?row4 e_vecs)) [0..<k]"
    by (rule transpose_rect [OF r4 pos])
  let ?rhs = "take k (map (\<lambda>i. map (\<lambda>row. row ! i) e_vecs) (drop 1 idx))
           @ replicate (k - (N - 1)) (replicate N 0)"
  have lrhs: "length ?rhs = k" using lidx by auto
  have eq: "map (\<lambda>j. map (\<lambda>row. row ! j) (map ?row4 e_vecs)) [0..<k] = ?rhs"
  proof (rule nth_equalityI)
    show "length (map (\<lambda>j. map (\<lambda>row. row ! j) (map ?row4 e_vecs)) [0..<k]) = length ?rhs"
      using lrhs by simp
  next
    fix j assume "j < length (map (\<lambda>j. map (\<lambda>row. row ! j) (map ?row4 e_vecs)) [0..<k])"
    then have j: "j < k" by simp
    have lhs: "map (\<lambda>j. map (\<lambda>row. row ! j) (map ?row4 e_vecs)) [0..<k] ! j
        = map (\<lambda>row. if j < N - 1 then row ! (idx ! Suc j) else 0) e_vecs"
      using j embedding_row(2) [OF lidx pos j] by (simp add: Let_def)
    show "map (\<lambda>j. map (\<lambda>row. row ! j) (map ?row4 e_vecs)) [0..<k] ! j = ?rhs ! j"
    proof (cases "j < N - 1")
      case True
      then have "?rhs ! j = map (\<lambda>row. row ! (idx ! Suc j)) e_vecs"
        using j lidx by (simp add: nth_append)
      with lhs True show ?thesis by simp
    next
      case False
      then have "?rhs ! j = replicate N 0"
        using j lidx by (simp add: nth_append)
      moreover have "map (\<lambda>row. 0::complex) e_vecs = replicate N 0"
        using len by (simp add: map_replicate_const)
      ultimately show ?thesis using lhs False by simp
    qed
  qed
  have final: "laplacian_eigenvectors lib L k = ?rhs"
    using res m4 tr eq by simp
  have "rect k N ?rhs"
  proof -
    have "length r = N" if "r \<in> set ?rhs" for r
    proof -
      from that consider "r \<in> set (map (\<lambda>i. map (\<lambda>row. row ! i) e_vecs) (drop 1 idx))"
        | "r = replicate N 0"
        by (auto dest: in_set_takeD)
      then show ?thesis using len by cases auto
    qed
    then show ?thesis using lrhs unfolding rect_def list_all_iff by blast
  qed
  moreover have "sorted (map (\<lambda>i. Re (e_vals ! i)) idx)"
  proof -
    have "map (\<lambda>i. Re (e_vals ! i)) idx = map (\<lambda>i. map Re e_vals ! i) idx"
      using vals lidx by (auto simp: idx_def set_argsort)
    moreover have "sorted (map (\<lambda>i. map Re e_vals ! i) idx)"
      unfolding idx_def by (rule sorted_argsort)
    ultimately show ?thesis by (simp only:)
  qed
  moreover have "set idx = {0..<N}" "distinct idx"
    using vals by (simp_all add: idx_def set_argsort distinct_argsort)
  ultimately show ?thesis
    using final unfolding idx_def by simp
qed

theorem laplacian_eigenvectors_shape_witness:
  "rect 3 2 (laplacian_eigenvectors example_library [[0,0],[0,0]] 3) \<and>
   laplacian_eigenvectors example_library [[0,0],[0,0]] 3 = [[0,1],[0,0],[0,0]]"
proof -
  have e: "eig example_library [[0,0],[0,0]] = ([0,0], [[1,0],[0,1]])"
    by (simp add: example_library_def eye_def numeral_2_eq_2)
  have a: "argsort [0, 0] = [0, 1]" by code_simp
  have l: "length [0::complex, 0] = 2" by simp
  have r: "rect 2 2 [[1::complex,0],[0,1]]" by (simp add: rect_def)
  from laplacian_eigenvectors_shape [OF e l r, of 3] show ?thesis
    by (simp add: a numeral_eq_Suc rect_def)
qed

subsection \<open>The affinity matrix\<close>

text \<open>
  C8. For \<open>n \<ge> 2\<close> points and every neighbour count \<open>k\<close> (which \<open>label_build_affinity\<close>
  lowers to \<open>n - 1\<close>), when the neighbour mask that the library returns is an \<open>n\<close>-by-\<open>n\<close>
  symmetric matrix without negative entries, \<open>label_build_affinity\<close> returns on its default
  path an \<open>n\<close>-by-\<open>n\<close> matrix that equals its transpose and has no negative entry.
\<close>

theorem affinity_symmetric_nonneg:
  assumes "2 \<le> length X"
    and "rect (length X) (length X) (recurrence_matrix lib (transpose X) (min k (int (length X) - 1)))"
    and "\<forall>i<length X. \<forall>j<length X.
           recurrence_matrix lib (transpose X) (min k (int (length X) - 1)) ! i ! j
             = recurrence_matrix lib (transpose X) (min k (int (length X) - 1)) ! j ! i \<and>
           0 \<le> recurrence_matrix lib (transpose X) (min k (int (length X) - 1)) ! i ! j"
  shows "\<exists>A. label_build_affinity lib X k False = Inr A \<and> rect (length X) (length X) A \<and>
           (\<forall>i<length X. \<forall>j<length X. A ! i ! j = A ! j ! i \<and> 0 \<le> A ! i ! j)"
proof -
  let ?K = "recurrence_matrix lib (transpose X) (min k (int (length X) - 1))"
  from label_build_affinity_entries [OF assms(1,2)] obtain A s where
    A: "label_build_affinity lib X k False = Inr A" "rect (length X) (length X) A"
    and ent: "\<forall>i<length X. \<forall>j<length X.
        A ! i ! j = exp (- 0.5 * ((cdist X X ! i ! j)\<^sup>2 / s)) * (?K ! i ! j + (if j = i then 1 else 0))"
    by blast
  have "A ! i ! j = A ! j ! i \<and> 0 \<le> A ! i ! j" if ij: "i < length X" "j < length X" for i j
  proof -
    have "A ! i ! j = exp (- 0.5 * ((cdist X X ! i ! j)\<^sup>2 / s)) * (?K ! i ! j + (if j = i then 1 else 0))"
      and "A ! j ! i = exp (- 0.5 * ((cdist X X ! j ! i)\<^sup>2 / s)) * (?K ! j ! i + (if i = j then 1 else 0))"
      using ent ij by blast+
    moreover have "cdist X X ! i ! j = cdist X X ! j ! i" using ij by (rule cdist_sym)
    moreover have "?K ! i ! j = ?K ! j ! i" "0 \<le> ?K ! i ! j" using assms(3) ij by blast+
    ultimately show ?thesis by auto
  qed
  with A show ?thesis by blast
qed

theorem affinity_symmetric_nonneg_witness:
  "(2::nat) \<le> length [[0::real],[1],[2],[3]] \<and>
   label_build_affinity example_library [[0],[1],[2],[3]] LABEL_K False = Inr (eye 4 0) \<and>
   rect 4 4 (eye 4 0) \<and> eye 4 0 ! 1 ! 2 = eye 4 0 ! 2 ! 1 \<and> 0 \<le> eye 4 0 ! 1 ! 2"
proof -
  let ?X = "[[0::real],[1],[2],[3]]"
  have n: "2 \<le> length ?X" by simp
  have r: "rect (length ?X) (length ?X)
      (recurrence_matrix example_library (transpose ?X) (min LABEL_K (int (length ?X) - 1)))"
    unfolding example_neighbours by (simp add: rect_def)
  have "[[0,0,0,0],[0,0,0,0],[0,0,0,0],[0,0,0,0::real]] ! i ! j = 0" if "i < 4" "j < 4" for i j
  proof -
    have "[[0,0,0,0],[0,0,0,0],[0,0,0,0],[0,0,0,0::real]] ! i = [0,0,0,0]"
      using that(1) by (auto simp: nth_Cons' )
    then show ?thesis using that(2) by (auto simp: nth_Cons')
  qed
  then have s: "\<forall>i<length ?X. \<forall>j<length ?X.
      recurrence_matrix example_library (transpose ?X) (min LABEL_K (int (length ?X) - 1)) ! i ! j
        = recurrence_matrix example_library (transpose ?X) (min LABEL_K (int (length ?X) - 1)) ! j ! i \<and>
      0 \<le> recurrence_matrix example_library (transpose ?X) (min LABEL_K (int (length ?X) - 1)) ! i ! j"
    unfolding example_neighbours by simp
  have len: "length ?X = 4" by simp
  from affinity_symmetric_nonneg [OF n r s, unfolded len] obtain A where
    A: "label_build_affinity example_library ?X LABEL_K False = Inr A" "rect 4 4 A"
    and sym: "\<forall>i<4. \<forall>j<4. A ! i ! j = A ! j ! i \<and> 0 \<le> A ! i ! j"
    by blast
  have eq: "A = eye 4 0" using A(1) by (simp add: example_affinity)
  have "(1::nat) < 4" "(2::nat) < 4" by simp_all
  with sym have "A ! 1 ! 2 = A ! 2 ! 1 \<and> 0 \<le> A ! 1 ! 2" by blast
  with A n show ?thesis unfolding eq by blast
qed

subsection \<open>Row sums passed to \<open>rw_laplacian\<close>\<close>

text \<open>
  C10. \<open>rw_laplacian\<close> divides by the row sums of its argument, and on the two matrices
  that the program passes to it no row sum is zero. For \<open>n \<ge> 2\<close> points and a neighbour
  mask without negative entries, every diagonal entry of the affinity matrix is at least
  1 (the self-loop times \<open>exp 0\<close>), so every row sum is positive. For \<open>N \<ge> 2\<close> frames and a
  de-skewed recurrence matrix without negative entries, every row of the graph built in
  \<open>repetition\<close> holds an edge to the next or to the previous frame, so every row sum is
  positive. In both cases \<open>rw_laplacian\<close> returns a matrix.
\<close>

theorem row_sums_positive:
  "(2 \<le> length X \<and>
    rect (length X) (length X) (recurrence_matrix lib (transpose X) (min k (int (length X) - 1))) \<and>
    (\<forall>i<length X. \<forall>j<length X.
       0 \<le> recurrence_matrix lib (transpose X) (min k (int (length X) - 1)) ! i ! j) \<longrightarrow>
    (\<exists>A. label_build_affinity lib X k False = Inr A \<and>
         (\<forall>i<length X. 1 \<le> A ! i ! i \<and> 0 < sum_list (A ! i)) \<and>
         rw_laplacian A \<noteq> None)) \<and>
   (2 \<le> N \<and> rect N N Rf \<and> (\<forall>i<N. \<forall>j<N. 0 \<le> Rf ! i ! j) \<longrightarrow>
    (\<forall>i<N. 0 < sum_list (repetition_graph Rf ! i)) \<and>
    rw_laplacian (repetition_graph Rf) \<noteq> None \<and> repetition lib' Rf \<noteq> None)"
proof (intro conjI impI)
  let ?n = "length X"
  let ?K = "recurrence_matrix lib (transpose X) (min k (int ?n - 1))"
  assume a: "2 \<le> ?n \<and> rect ?n ?n ?K \<and> (\<forall>i<?n. \<forall>j<?n. 0 \<le> ?K ! i ! j)"
  then have n: "2 \<le> ?n" and K: "rect ?n ?n ?K" and nn: "\<forall>i<?n. \<forall>j<?n. 0 \<le> ?K ! i ! j"
    by blast+
  from label_build_affinity_entries [OF n K] obtain A s where
    A: "label_build_affinity lib X k False = Inr A" "rect ?n ?n A"
    and ent: "\<forall>i<?n. \<forall>j<?n.
        A ! i ! j = exp (- 0.5 * ((cdist X X ! i ! j)\<^sup>2 / s)) * (?K ! i ! j + (if j = i then 1 else 0))"
    by blast
  have nonneg: "0 \<le> A ! i ! j" if "i < ?n" "j < ?n" for i j
  proof -
    have "A ! i ! j = exp (- 0.5 * ((cdist X X ! i ! j)\<^sup>2 / s)) * (?K ! i ! j + (if j = i then 1 else 0))"
      using ent that by blast
    moreover have "0 \<le> ?K ! i ! j" using nn that by blast
    ultimately show ?thesis by auto
  qed
  have diag: "1 \<le> A ! i ! i" if i: "i < ?n" for i
  proof -
    have "A ! i ! i = exp (- 0.5 * ((cdist X X ! i ! i)\<^sup>2 / s)) * (?K ! i ! i + 1)"
      using ent i by auto
    moreover have "cdist X X ! i ! i = 0" using i by (rule cdist_diag)
    moreover have "0 \<le> ?K ! i ! i" using nn i by blast
    ultimately show ?thesis by simp
  qed
  have row: "0 < sum_list (A ! i)" if i: "i < ?n" for i
  proof -
    have l: "length (A ! i) = ?n" using A(2) i by (rule rect_nth)
    have "\<forall>x\<in>set (A ! i). 0 \<le> x"
      using nonneg [OF i] l by (auto simp: in_set_conv_nth)
    then show ?thesis using diag [OF i] i l by (intro sum_list_pos_row [of _ i]) simp_all
  qed
  have "\<forall>r\<in>set A. 0 < sum_list r"
    using row A(2) by (auto simp: in_set_conv_nth rect_def)
  then have "rw_laplacian A \<noteq> None" by (rule rw_laplacian_defined)
  with A(1) diag row
  show "\<exists>A. label_build_affinity lib X k False = Inr A \<and>
         (\<forall>i<?n. 1 \<le> A ! i ! i \<and> 0 < sum_list (A ! i)) \<and> rw_laplacian A \<noteq> None"
    by blast
next
  assume b: "2 \<le> N \<and> rect N N Rf \<and> (\<forall>i<N. \<forall>j<N. 0 \<le> Rf ! i ! j)"
  then have N: "2 \<le> N" and R: "rect N N Rf" and nn: "\<forall>i<N. \<forall>j<N. 0 \<le> Rf ! i ! j"
    by blast+
  have pos: "0 < N" using N by simp
  let ?M = "repetition_graph Rf"
  note rM = repetition_graph_entries(1) [OF R pos]
  note ent = repetition_graph_entries(2) [OF R pos]
  have nonneg: "0 \<le> ?M ! i ! j" if ij: "i < N" "j < N" for i j
  proof -
    have "0 \<le> Rf ! i ! j" using nn ij by blast
    then show ?thesis using ent [OF ij] by auto
  qed
  have row: "0 < sum_list (?M ! i)" if i: "i < N" for i
  proof -
    have l: "length (?M ! i) = N" using rM i by (rule rect_nth)
    have all: "\<forall>x\<in>set (?M ! i). 0 \<le> x"
      using nonneg [OF i] l by (auto simp: in_set_conv_nth)
    show ?thesis
    proof (cases "Suc i < N")
      case True
      have "0 \<le> Rf ! i ! Suc i" using nn i True by blast
      then have "1 \<le> ?M ! i ! Suc i" using ent [OF i True] by auto
      then show ?thesis using all True l by (intro sum_list_pos_row [of _ "Suc i"]) simp_all
    next
      case False
      then obtain i' where i': "i = Suc i'" using N i by (cases i) auto
      then have lt: "i' < N" using i by simp
      have "0 \<le> Rf ! i ! i'" using nn i lt by blast
      then have "1 \<le> ?M ! i ! i'" using ent [OF i lt] i' by auto
      then show ?thesis using all lt l by (intro sum_list_pos_row [of _ i']) simp_all
    qed
  qed
  show "\<forall>i<N. 0 < sum_list (?M ! i)" using row by blast
  have "\<forall>r\<in>set ?M. 0 < sum_list r"
    using row rM by (auto simp: in_set_conv_nth rect_def)
  then show d: "rw_laplacian ?M \<noteq> None" by (rule rw_laplacian_defined)
  then show "repetition lib' Rf \<noteq> None"
    by (auto simp: repetition_def split: option.splits)
qed

theorem row_sums_positive_witness:
  "label_build_affinity example_library [[0],[1],[2],[3]] LABEL_K False = Inr (eye 4 0) \<and>
   1 \<le> eye 4 0 ! 2 ! 2 \<and> 0 < sum_list (eye 4 0 ! 2) \<and> rw_laplacian (eye 4 0) \<noteq> None \<and>
   0 < sum_list (repetition_graph [[0,0],[0,0]] ! 1) \<and>
   rw_laplacian (repetition_graph [[0,0],[0,0]]) \<noteq> None \<and>
   repetition example_library [[0,0],[0,0]] \<noteq> None"
proof -
  let ?X = "[[0::real],[1],[2],[3]]"
  have z: "[[0,0,0,0],[0,0,0,0],[0,0,0,0],[0,0,0,0::real]] ! i ! j = 0" if "i < 4" "j < 4" for i j
  proof -
    have "[[0,0,0,0],[0,0,0,0],[0,0,0,0],[0,0,0,0::real]] ! i = [0,0,0,0]"
      using that(1) by (auto simp: nth_Cons' )
    then show ?thesis using that(2) by (auto simp: nth_Cons')
  qed
  have a: "2 \<le> length ?X \<and>
      rect (length ?X) (length ?X)
        (recurrence_matrix example_library (transpose ?X) (min LABEL_K (int (length ?X) - 1))) \<and>
      (\<forall>i<length ?X. \<forall>j<length ?X.
        0 \<le> recurrence_matrix example_library (transpose ?X) (min LABEL_K (int (length ?X) - 1)) ! i ! j)"
    unfolding example_neighbours using z by (simp add: rect_def)
  have z2: "[[0,0],[0,0::real]] ! i ! j = 0" if "i < 2" "j < 2" for i j
  proof -
    have "[[0,0],[0,0::real]] ! i = [0,0]" using that(1) by (auto simp: nth_Cons')
    then show ?thesis using that(2) by (auto simp: nth_Cons')
  qed
  have b: "(2::nat) \<le> 2 \<and> rect 2 2 [[0,0],[0,0::real]] \<and> (\<forall>i<2. \<forall>j<2. 0 \<le> [[0,0],[0,0::real]] ! i ! j)"
    using z2 by (simp add: rect_def)
  have len: "length ?X = 4" by simp
  note t = row_sums_positive [of ?X example_library LABEL_K 2 "[[0,0],[0,0]]" example_library]
  from t [THEN conjunct1, THEN mp, OF a, unfolded len] obtain A where
    A: "label_build_affinity example_library ?X LABEL_K False = Inr A"
    and rows: "\<forall>i<4. 1 \<le> A ! i ! i \<and> 0 < sum_list (A ! i)" and L: "rw_laplacian A \<noteq> None"
    by blast
  have eq: "A = eye 4 0" using A by (simp add: example_affinity)
  have "(2::nat) < 4" by simp
  with rows have p1: "1 \<le> A ! 2 ! 2 \<and> 0 < sum_list (A ! 2)" by blast
  note p2 = t [THEN conjunct2, THEN mp, OF b]
  have "(1::nat) < 2" by simp
  with p2 have "0 < sum_list (repetition_graph [[0,0],[0,0]] ! 1)" by blast
  with p1 p2 L A show ?thesis unfolding eq by blast
qed

subsection \<open>Segment names\<close>

text \<open>
  C6 (as amended). The names at the indices 0, 25, 26 and 27 are \<open>A\<close>, \<open>Z\<close>, \<open>Aa\<close> and
  \<open>Ab\<close>. The table has exactly 702 names, which are pairwise distinct; an index from 702
  on has no name, the lookup raises \<open>IndexError\<close>.
\<close>

theorem segment_names_table:
  "segment_name 0 = Inr ''A'' \<and> segment_name 25 = Inr ''Z'' \<and>
   segment_name 26 = Inr ''Aa'' \<and> segment_name 27 = Inr ''Ab'' \<and>
   length SEGMENT_NAMES = 702 \<and>
   (\<forall>i. 0 \<le> i \<longrightarrow> (segment_name i = Inl IndexError \<longleftrightarrow> 702 \<le> i)) \<and>
   (\<forall>i j. 0 \<le> i \<and> i < 702 \<and> 0 \<le> j \<and> j < 702 \<and> i \<noteq> j \<longrightarrow> segment_name i \<noteq> segment_name j)"
proof -
  have v: "segment_name 0 = Inr ''A''" "segment_name 25 = Inr ''Z''"
    "segment_name 26 = Inr ''Aa''" "segment_name 27 = Inr ''Ab''"
    by code_simp+
  have e: "\<forall>i. 0 \<le> i \<longrightarrow> (segment_name i = Inl IndexError \<longleftrightarrow> 702 \<le> i)"
    by (auto simp: segment_name_def py_index_def length_SEGMENT_NAMES Let_def)
  have d: "segment_name i \<noteq> segment_name j"
    if "0 \<le> i \<and> i < 702 \<and> 0 \<le> j \<and> j < 702 \<and> i \<noteq> j" for i j
  proof -
    have "nat i < length SEGMENT_NAMES" "nat j < length SEGMENT_NAMES" "nat i \<noteq> nat j"
      using that unfolding length_SEGMENT_NAMES by linarith+
    then have "SEGMENT_NAMES ! nat i \<noteq> SEGMENT_NAMES ! nat j"
      using distinct_SEGMENT_NAMES by (simp add: nth_eq_iff_index_eq)
    then show ?thesis
      using that by (simp add: segment_name_def py_index_def length_SEGMENT_NAMES Let_def)
  qed
  from v e d length_SEGMENT_NAMES show ?thesis by blast
qed

theorem segment_names_table_witness:
  "(0::int) \<le> 0 \<and> (0::int) < 702 \<and> (0::int) \<le> 27 \<and> (27::int) < 702 \<and> (0::int) \<noteq> 27 \<and>
   segment_name 0 \<noteq> segment_name 27 \<and> segment_name 0 \<noteq> Inl IndexError"
proof -
  from segment_names_table have
    "0 \<le> (0::int) \<and> (0::int) < 702 \<and> 0 \<le> (27::int) \<and> (27::int) < 702 \<and> (0::int) \<noteq> 27
       \<longrightarrow> segment_name 0 \<noteq> segment_name 27"
    and "(0::int) \<le> 0 \<longrightarrow> (segment_name 0 = Inl IndexError \<longleftrightarrow> (702::int) \<le> 0)"
    by blast+
  then show ?thesis by simp
qed

text \<open>The sequence of names ends: the index 702 has no name.\<close>

theorem segment_names_end: "segment_name 702 = Inl IndexError"
  by code_simp

subsection \<open>The number of clusters\<close>

text \<open>
  C7 (as amended). \<open>label_segments\<close> raises nothing of its own when it clamps the
  estimate: when the affinity matrix and the estimate are there, it calls the spectral
  clustering with \<open>min(n_segments - 1, max(2, estimate))\<close> clusters. This number is at most
  \<open>n_segments - 1\<close>, and it is at least 2 when there are at least three segments.
\<close>

theorem label_segments_clamped:
  "(case label_build_affinity lib (transpose X) LABEL_K False of
      Inl e \<Rightarrow> label_segments lib X = Inl e
    | Inr A \<Rightarrow>
        (case label_estimate_n_components lib A of
           Inl e \<Rightarrow> label_segments lib X = Inl e
         | Inr (estimate, gap) \<Rightarrow>
             label_segments lib X
               = names_of (fit_predict lib (min (int (length A) - 1) (max 2 estimate)) A) \<and>
             min (int (length A) - 1) (max 2 estimate) \<le> int (length A) - 1 \<and>
             (3 \<le> length A \<longrightarrow> 2 \<le> min (int (length A) - 1) (max 2 estimate))))"
proof (cases "label_build_affinity lib (transpose X) LABEL_K False")
  case (Inl e)
  then show ?thesis by (simp add: label_segments_def)
next
  case A: (Inr A)
  show ?thesis
  proof (cases "label_estimate_n_components lib A")
    case (Inl e)
    then have "n_clusters lib A = Inl e" by (simp add: n_clusters_def)
    then show ?thesis using A Inl by (simp add: label_segments_def)
  next
    case (Inr r)
    obtain estimate gap where r: "r = (estimate, gap)" by (cases r)
    have "n_clusters lib A = Inr (min (int (length A) - 1) (max 2 estimate))"
      using Inr r by (simp add: n_clusters_def)
    then have "label_segments lib X
        = names_of (fit_predict lib (min (int (length A) - 1) (max 2 estimate)) A)"
      using A by (simp add: label_segments_def)
    moreover have "3 \<le> length A \<longrightarrow> 2 \<le> min (int (length A) - 1) (max 2 estimate)"
      by auto
    ultimately show ?thesis using A Inr r by simp
  qed
qed

theorem label_segments_clamped_witness:
  "label_build_affinity example_library (transpose [[0,1,2,3]]) LABEL_K False = Inr (eye 4 0) \<and>
   label_estimate_n_components example_library (eye 4 0) = Inr (1, 0) \<and>
   (3::nat) \<le> length (eye 4 0) \<and>
   label_segments example_library [[0,1,2,3]] = names_of (fit_predict example_library 2 (eye 4 0))"
proof -
  have a: "label_build_affinity example_library (transpose [[0,1,2,3]]) LABEL_K False = Inr (eye 4 0)"
    by (simp add: example_transpose example_affinity)
  note e = example_estimate
  have l: "length (eye 4 0) = 4" by (rule length_eye)
  have "label_segments example_library [[0,1,2,3]]
      = names_of (fit_predict example_library 2 (eye 4 0))"
    using label_segments_clamped [of example_library "[[0,1,2,3]]"]
    by (simp add: example_affinity e l)
  with a e l show ?thesis by simp
qed

text \<open>
  With two segments the interval from 2 to \<open>n_segments - 1\<close> is empty, and the number of
  clusters passed on is 1.
\<close>

theorem n_clusters_below_two:
  "n_clusters example_library [[1, 0], [0, 1]] = Inr 1 \<and> (1::int) < 2"
  by code_simp

end
